theory Spec2Isabelle
  imports Complex_Main
begin

section \<open>JavaScript strings and arrays\<close>

text \<open>
  A JavaScript string is modelled as a \<open>string\<close>: the list of its code units, here the
  code units below 256. \<open>undefined\<close> is \<open>None\<close>: reading an array beyond its last
  element gives \<open>undefined\<close> in JavaScript, it does not raise.
\<close>

fun js_index :: "'a list \<Rightarrow> nat \<Rightarrow> 'a option" where
  "js_index [] i = None"
| "js_index (x # xs) 0 = Some x"
| "js_index (x # xs) (Suc i) = js_index xs i"

text \<open>\<open>s.split(sep)\<close> for a separator of one code unit: the pieces between the separators.\<close>

fun js_split :: "char \<Rightarrow> string \<Rightarrow> string list" where
  "js_split sep [] = [[]]"
| "js_split sep (c # cs) =
     (if c = sep then [] # js_split sep cs
      else (case js_split sep cs of
              [] \<Rightarrow> [[c]]
            | w # ws \<Rightarrow> (c # w) # ws))"

text \<open>\<open>s.startsWith(t)\<close> and \<open>s.includes(t)\<close>: \<open>t\<close> occurs in \<open>s\<close> as a substring.\<close>

fun startsWith :: "string \<Rightarrow> string \<Rightarrow> bool" where
  "startsWith s [] = True"
| "startsWith [] (t # ts) = False"
| "startsWith (c # cs) (t # ts) = (c = t \<and> startsWith cs ts)"

fun js_includes :: "string \<Rightarrow> string \<Rightarrow> bool" where
  "js_includes [] t = (t = [])"
| "js_includes (c # cs) t = (startsWith (c # cs) t \<or> js_includes cs t)"

text \<open>
  \<open>s.trim()\<close> removes white space and line terminators from both ends. Among the code
  units below 256 these are TAB, LF, VT, FF, CR, SPACE and NO-BREAK SPACE.
\<close>

definition isWhiteSpace :: "char \<Rightarrow> bool" where
  "isWhiteSpace c \<longleftrightarrow>
     c \<in> set [CHR 0x09, CHR 0x0A, CHR 0x0B, CHR 0x0C, CHR 0x0D, CHR 0x20, CHR 0xA0]"

definition trim :: "string \<Rightarrow> string" where
  "trim s = rev (dropWhile isWhiteSpace (rev (dropWhile isWhiteSpace s)))"

text \<open>
  \<open>s.toLowerCase()\<close> on the ASCII letters; every other code unit is kept.
\<close>

definition lowerChar :: "char \<Rightarrow> char" where
  "lowerChar c =
     (case map_of (zip ''ABCDEFGHIJKLMNOPQRSTUVWXYZ'' ''abcdefghijklmnopqrstuvwxyz'') c of
        None \<Rightarrow> c
      | Some l \<Rightarrow> l)"

definition toLowerCase :: "string \<Rightarrow> string" where
  "toLowerCase s = map lowerChar s"

text \<open>
  \<open>s.replace(/(\r\n|\n|\r)/gm, " ")\<close>: the scan goes left to right and the alternatives
  are tried in their order, so a CR LF pair is one match and becomes one space.
\<close>

fun replaceLineBreaks :: "string \<Rightarrow> string" where
  "replaceLineBreaks [] = []"
| "replaceLineBreaks [c] = (if c = CHR 0x0A \<or> c = CHR 0x0D then '' '' else [c])"
| "replaceLineBreaks (c # d # cs) =
     (if c = CHR 0x0D \<and> d = CHR 0x0A then '' '' @ replaceLineBreaks cs
      else if c = CHR 0x0A \<or> c = CHR 0x0D then '' '' @ replaceLineBreaks (d # cs)
      else c # replaceLineBreaks (d # cs))"

section \<open>utils/imageUtils: dataUrlToBase64\<close>

text \<open>\<open>dataUrl.split(',')[1]\<close>; \<open>None\<close> is the \<open>undefined\<close> of a missing element.\<close>

definition dataUrlToBase64 :: "string \<Rightarrow> string option" where
  "dataUrlToBase64 dataUrl = js_index (js_split CHR '','' dataUrl) 1"

section \<open>services/aiService\<close>

text \<open>
  The three kinds of exception the service throws: the classes \<open>ConfigError\<close> and
  \<open>RateLimitError\<close>, and a plain \<open>Error\<close>. Each carries its message.
\<close>

datatype api_error = ConfigError string | RateLimitError string | Error string

text \<open>
  The remote model is an oracle: given the image and the prompt, the call
  \<open>generateContent\<close> either resolves with a response, whose \<open>text\<close> may be
  \<open>undefined\<close>, or rejects with an error whose message is given.
\<close>

datatype remote = Response "string option" | Rejected string

type_synonym model_api = "string option \<Rightarrow> string \<Rightarrow> remote"

text \<open>The configuration read by \<open>getApiKey\<close>, and whether the client \<open>ai\<close> exists already.\<close>

record config =
  VITE_API_KEY :: "string option"
  API_KEY :: "string option"
  ai :: bool

text \<open>A string or \<open>undefined\<close> used as a condition: \<open>undefined\<close> and \<open>""\<close> are falsy.\<close>

definition truthy :: "string option \<Rightarrow> bool" where
  "truthy v = (case v of None \<Rightarrow> False | Some s \<Rightarrow> s \<noteq> [])"

text \<open>
  The message of the \<open>ConfigError\<close> of \<open>getApiKey\<close> is a page of setup instructions;
  only its first line is kept here.
\<close>

definition apiKeyMessage :: string where
  "apiKeyMessage = ''API key not configured. Please follow these instructions:''"

definition getApiKey :: "config \<Rightarrow> api_error + string" where
  "getApiKey cfg =
     (let apiKey = (if truthy (VITE_API_KEY cfg) then VITE_API_KEY cfg else None);
          apiKey = (if \<not> truthy apiKey \<and> truthy (API_KEY cfg) then API_KEY cfg else apiKey)
      in case apiKey of
           None \<Rightarrow> Inl (ConfigError apiKeyMessage)
         | Some k \<Rightarrow>
             if k \<noteq> [] \<and> trim k \<noteq> [] \<and> \<not> js_includes k ''YOUR_API_KEY'' then Inr k
             else Inl (ConfigError apiKeyMessage))"

definition getAi :: "config \<Rightarrow> api_error + unit" where
  "getAi cfg =
     (if \<not> ai cfg then (case getApiKey cfg of Inl e \<Rightarrow> Inl e | Inr k \<Rightarrow> Inr ())
      else Inr ())"

text \<open>
  The \<open>catch\<close> block of \<open>generateVisionContent\<close> for an error that is not a
  \<open>ConfigError\<close>: the error is classified by its message.
\<close>

definition classify :: "string \<Rightarrow> api_error" where
  "classify rawMessage =
     (if js_includes rawMessage ''API key not valid'' \<or> js_includes rawMessage ''permission to access''
         \<or> js_includes rawMessage ''400''
      then ConfigError ''This application is not configured correctly due to an invalid API key or permissions issue.''
      else if js_includes rawMessage ''RESOURCE_EXHAUSTED'' \<or> js_includes rawMessage ''429''
         \<or> js_includes rawMessage ''exceeded your current quota''
      then RateLimitError ''Request limit reached. This could be due to too many requests per minute or exceeding the daily quota. Please wait and try again later.''
      else Error ''Failed to communicate with the AI model. Please check your network connection.'')"

text \<open>
  \<open>generateVisionContent\<close>. The error for an empty response is thrown inside the
  \<open>try\<close>, so the \<open>catch\<close> block classifies it like a rejection.
\<close>

definition generateVisionContent ::
  "config \<Rightarrow> model_api \<Rightarrow> string option \<Rightarrow> string \<Rightarrow> api_error + string" where
  "generateVisionContent cfg remote base64Image prompt =
     (case getAi cfg of
        Inl e \<Rightarrow> Inl e
      | Inr u \<Rightarrow>
          (case remote base64Image prompt of
             Rejected rawMessage \<Rightarrow> Inl (classify rawMessage)
           | Response None \<Rightarrow> Inl (classify ''The AI returned an empty response.'')
           | Response (Some t) \<Rightarrow>
               if t = [] then Inl (classify ''The AI returned an empty response.'')
               else Inr (trim t)))"

definition quickPrompt :: string where
  "quickPrompt = ''What is the single, most prominent object in this image? '' @ [CHR 0x0A] @
     ''    Respond with only the name of the object. Keep it to one or two words.''"

text \<open>
  \<open>getQuickObjectName\<close>: \<open>response.replace(/(\r\n|\n|\r)/gm, " ").split(".")[0]\<close>.
\<close>

definition getQuickObjectName :: "config \<Rightarrow> model_api \<Rightarrow> string option \<Rightarrow> api_error + string option" where
  "getQuickObjectName cfg remote base64Image =
     (case generateVisionContent cfg remote base64Image quickPrompt of
        Inl e \<Rightarrow> Inl e
      | Inr response \<Rightarrow> Inr (js_index (js_split CHR ''.'' (replaceLineBreaks response)) 0))"

text \<open>The messages of the chat (\<open>Message\<close> of components/ChatView).\<close>

datatype author = User | AI

text \<open>The field \<open>text\<close> of a message is \<open>msgText\<close> here.\<close>

record message =
  author :: author
  msgText :: string

fun join :: "string \<Rightarrow> string list \<Rightarrow> string" where
  "join sep [] = []"
| "join sep [x] = x"
| "join sep (x # y # ys) = x @ sep @ join sep (y # ys)"

definition followUpPrompt :: "message list \<Rightarrow> string \<Rightarrow> string" where
  "followUpPrompt msgs newUserInput =
     (let history = join [CHR 0x0A]
            (map (\<lambda>msg. (if author msg = User then ''User'' else ''AI'') @ '': '' @ msgText msg) msgs)
      in ''You are an AI assistant analyzing an image.'' @ [CHR 0x0A] @
         ''Based on the image and the conversation history below, provide a concise answer to the user's latest question.'' @
         [CHR 0x0A, CHR 0x0A] @ ''Conversation History:'' @ [CHR 0x0A] @ history @
         [CHR 0x0A, CHR 0x0A] @ ''Latest Question from User:'' @ [CHR 0x0A] @ newUserInput)"

definition getFollowUpAnswer ::
  "config \<Rightarrow> model_api \<Rightarrow> string option \<Rightarrow> message list \<Rightarrow> string \<Rightarrow> api_error + string" where
  "getFollowUpAnswer cfg remote base64Image msgs newUserInput =
     generateVisionContent cfg remote base64Image (followUpPrompt msgs newUserInput)"

section \<open>hooks/useCamera\<close>

text \<open>
  A \<open>MediaDeviceInfo\<close>, the capabilities the hook detects, and the state of the hook.
  JavaScript numbers are modelled as reals. The fields \<open>min\<close>, \<open>max\<close> and \<open>step\<close> of
  the zoom capability are \<open>zoomMin\<close>, \<open>zoomMax\<close> and \<open>zoomStep\<close>. A stream is the
  list of its video tracks, each with the zoom last applied to it; \<open>streamRef\<close> is
  \<open>None\<close> when no stream is open.
\<close>

datatype device_kind = AudioInput | AudioOutput | VideoInput

record device =
  kind :: device_kind
  deviceId :: string
  label :: string

record capabilities =
  flashSupported :: bool
  zoomSupported :: bool
  zoomMin :: real
  zoomMax :: real
  zoomStep :: real

record track =
  appliedZoom :: "real option"

record camera =
  cameraError :: "string option"
  devices :: "device list"
  currentDeviceId :: "string option"
  capabilities :: capabilities
  isFlashOn :: bool
  zoom :: real
  streamRef :: "track list option"

definition initialCamera :: camera where
  "initialCamera =
     \<lparr>cameraError = None, devices = [], currentDeviceId = None,
      capabilities = \<lparr>flashSupported = False, zoomSupported = False,
                       zoomMin = 1, zoomMax = 1, zoomStep = 1 / 10\<rparr>,
      isFlashOn = False, zoom = 1, streamRef = None\<rparr>"

text \<open>
  What the two awaited platform calls of \<open>enumerateDevices\<close> give: the list of all
  devices, or an exception, a \<open>DOMException\<close> with its name or something else.
  In \<open>backCamera?.deviceId || videoDevices[0].deviceId\<close> the left operand is falsy when
  no device was found and when the identifier of the device found is the empty string.
\<close>

datatype media_error = DOMException string | OtherException

definition enumerateDevices :: "media_error + device list \<Rightarrow> camera \<Rightarrow> camera" where
  "enumerateDevices platform s =
     (case platform of
        Inl err \<Rightarrow>
          (if (case err of
                 DOMException name \<Rightarrow> name = ''NotAllowedError'' \<or> name = ''PermissionDeniedError''
               | OtherException \<Rightarrow> False)
           then s\<lparr>cameraError := Some ''Camera access was denied. Please grant permission in your browser's settings and try again.''\<rparr>
           else s\<lparr>cameraError := Some ''Could not list available cameras.''\<rparr>)
      | Inr allDevices \<Rightarrow>
          (let videoDevices = filter (\<lambda>d. kind d = VideoInput) allDevices
           in case videoDevices of
                [] \<Rightarrow> s\<lparr>cameraError := Some ''No camera found on this device.''\<rparr>
              | first # others \<Rightarrow>
                  (let backCamera = find (\<lambda>d. js_includes (toLowerCase (label d)) ''back'') videoDevices
                   in s\<lparr>devices := videoDevices,
                        currentDeviceId :=
                          Some (case backCamera of
                                  None \<Rightarrow> deviceId first
                                | Some b \<Rightarrow> if deviceId b \<noteq> [] then deviceId b else deviceId first)\<rparr>)))"

text \<open>
  \<open>findIndex\<close> gives -1 when no element satisfies the test. \<open>%\<close> on integers takes
  the sign of the dividend. Reading a field of \<open>undefined\<close> throws a \<open>TypeError\<close>.
\<close>

fun findIndex :: "('a \<Rightarrow> bool) \<Rightarrow> 'a list \<Rightarrow> int" where
  "findIndex P [] = - 1"
| "findIndex P (x # xs) =
     (if P x then 0 else (let i = findIndex P xs in if i < 0 then - 1 else i + 1))"

definition js_rem :: "int \<Rightarrow> int \<Rightarrow> int" where
  "js_rem a b = sgn a * (\<bar>a\<bar> mod \<bar>b\<bar>)"

datatype js_error = TypeError

definition switchCamera :: "camera \<Rightarrow> js_error + camera" where
  "switchCamera s =
     (if length (devices s) < 2 then Inr s
      else
        (let currentIndex = findIndex (\<lambda>d. Some (deviceId d) = currentDeviceId s) (devices s);
             nextIndex = js_rem (currentIndex + 1) (int (length (devices s)))
         in case (if nextIndex < 0 then None else js_index (devices s) (nat nextIndex)) of
              None \<Rightarrow> Inl TypeError
            | Some d \<Rightarrow> Inr (s\<lparr>currentDeviceId := Some (deviceId d)\<rparr>)))"

text \<open>
  \<open>setZoomValue\<close>. Whether the hardware accepts the constraint is the platform's answer
  \<open>accepted\<close>; a refusal is only logged.
\<close>

definition setZoomValue :: "bool \<Rightarrow> real \<Rightarrow> camera \<Rightarrow> camera" where
  "setZoomValue accepted v s =
     (if \<not> zoomSupported (capabilities s) \<or> streamRef s = None then s
      else
        (let s1 = s\<lparr>zoom := v\<rparr>
         in case streamRef s of
              None \<Rightarrow> s1
            | Some [] \<Rightarrow> s1
            | Some (t # ts) \<Rightarrow>
                if accepted then s1\<lparr>streamRef := Some (t\<lparr>appliedZoom := Some v\<rparr> # ts)\<rparr>
                else s1))"

section \<open>App\<close>

text \<open>
  The state of the \<open>App\<close> component. The handler removes a message by comparing
  object identities (\<open>msg !== newUserMessage\<close>), so each message of the history is kept
  with the reference of its object; a new object gets a reference no message of the
  history has.
\<close>

datatype view = Home | Camera | Results

record app =
  currentView :: view
  capturedImage :: "string option"
  isLoading :: bool
  messages :: "(nat \<times> message) list"
  error :: "string option"
  configError :: "string option"

definition initialApp :: app where
  "initialApp = \<lparr>currentView = Home, capturedImage = None, isLoading = False,
                  messages = [], error = None, configError = None\<rparr>"

definition newRef :: "(nat \<times> message) list \<Rightarrow> nat" where
  "newRef ms = Suc (foldr max (map fst ms) 0)"

definition resetState :: "app \<Rightarrow> app" where
  "resetState a = a\<lparr>capturedImage := None, isLoading := False, messages := [],
                     error := None, currentView := Home\<rparr>"

definition handleConfigError :: "string \<Rightarrow> app \<Rightarrow> app" where
  "handleConfigError m a = a\<lparr>configError := Some m\<rparr>"

definition errorMessage :: "api_error \<Rightarrow> string" where
  "errorMessage e = (case e of ConfigError m \<Rightarrow> m | RateLimitError m \<Rightarrow> m | Error m \<Rightarrow> m)"

text \<open>
  \<open>handleSendMessage\<close> up to its \<open>await\<close>: \<open>None\<close> when the guard returns, otherwise
  the reference of the new user message and the state with the message added.
\<close>

definition handleSendMessage_begin :: "string \<Rightarrow> app \<Rightarrow> (nat \<times> app) option" where
  "handleSendMessage_begin userInput a =
     (if \<not> truthy (capturedImage a) \<or> trim userInput = [] \<or> isLoading a then None
      else
        (let r = newRef (messages a)
         in Some (r, a\<lparr>messages := messages a @ [(r, \<lparr>author = User, msgText = userInput\<rparr>)],
                       isLoading := True, error := None\<rparr>)))"

text \<open>\<open>handleSendMessage\<close> once the call has settled: the \<open>try\<close>, \<open>catch\<close> and \<open>finally\<close> blocks.\<close>

definition handleSendMessage_settle :: "nat \<Rightarrow> api_error + string \<Rightarrow> app \<Rightarrow> app" where
  "handleSendMessage_settle r outcome a =
     (case outcome of
        Inr aiResponse \<Rightarrow>
          a\<lparr>messages := messages a @ [(newRef (messages a), \<lparr>author = AI, msgText = aiResponse\<rparr>)]\<rparr>
      | Inl (ConfigError m) \<Rightarrow> a\<lparr>configError := Some m\<rparr>
      | Inl e \<Rightarrow>
          a\<lparr>error := Some (if errorMessage e \<noteq> [] then errorMessage e
                            else ''There was an error getting a response. Please try again.''),
            messages := filter (\<lambda>msg. fst msg \<noteq> r) (messages a)\<rparr>)
     \<lparr>isLoading := False\<rparr>"

text \<open>The whole handler, when nothing else happens while the call is outstanding.\<close>

definition handleSendMessage :: "config \<Rightarrow> model_api \<Rightarrow> string \<Rightarrow> app \<Rightarrow> app" where
  "handleSendMessage cfg remote userInput a =
     (case handleSendMessage_begin userInput a of
        None \<Rightarrow> a
      | Some (r, a1) \<Rightarrow>
          handleSendMessage_settle r
            (getFollowUpAnswer cfg remote
               (case capturedImage a of None \<Rightarrow> None | Some img \<Rightarrow> dataUrlToBase64 img)
               (map snd (messages a)) userInput)
            a1)"

section \<open>components/CameraView\<close>

subsection \<open>The crop of a tap and the working canvas\<close>

text \<open>
  The geometry of a click on the video element: the pointer position and the bounding
  rectangle of the element. \<open>cropOfClick\<close> is the crop \<open>handleVideoClick\<close> computes
  from it and from the intrinsic size of the video; \<open>canvasSize\<close> is the size
  \<open>identifyFrame\<close> gives the working canvas the frame is drawn on and the crop is read
  from (the height of a canvas is an integer: the fraction is dropped).
\<close>

record click =
  clientX :: real
  clientY :: real
  rectLeft :: real
  rectTop :: real
  rectWidth :: real
  rectHeight :: real

record crop =
  sx :: real
  sy :: real
  sWidth :: real
  sHeight :: real

definition cropOfClick :: "click \<Rightarrow> nat \<Rightarrow> nat \<Rightarrow> crop" where
  "cropOfClick ev videoW videoH =
     (let x = clientX ev - rectLeft ev;
          y = clientY ev - rectTop ev;
          cropSize = 150;
          scaleX = real videoW / rectWidth ev;
          scaleY = real videoH / rectHeight ev
      in \<lparr>sx = max 0 (x * scaleX - cropSize / 2),
          sy = max 0 (y * scaleY - cropSize / 2),
          sWidth = cropSize,
          sHeight = cropSize\<rparr>)"

definition canvasSize :: "nat \<Rightarrow> nat \<Rightarrow> nat \<times> nat" where
  "canvasSize videoW videoH =
     (let aspectRatio = real videoW / real videoH
      in (640, nat \<lfloor>640 / aspectRatio\<rfloor>))"

text \<open>The crop rectangle lies within a canvas of the given size.\<close>

definition cropWithin :: "crop \<Rightarrow> nat \<times> nat \<Rightarrow> bool" where
  "cropWithin c canvas \<longleftrightarrow>
     0 \<le> sx c \<and> sx c + sWidth c \<le> real (fst canvas) \<and>
     0 \<le> sy c \<and> sy c + sHeight c \<le> real (snd canvas)"

subsection \<open>The identification loop\<close>

text \<open>
  The component as a transition system. A state holds the React state of the
  component, its three timer references, the \<open>App\<close> state its \<open>onConfigError\<close> callback
  writes to, and what is pending outside the component:
  \<^item> a timer reference is the time (in ms) at which the pending timer fires, \<open>None\<close>
    when no timer is pending (never set, fired or cleared);
  \<^item> \<open>outstanding\<close> are the identification calls issued and not yet settled; an ambient
    call carries the \<open>isCancelled\<close> flag of the effect run whose loop awaits it, a
    focused call its crop;
  \<^item> \<open>loopActive\<close> says that the last run of the real-time effect started a loop
    (so it has a cleanup, and its \<open>isCancelled\<close> is false); \<open>loopIsIdentifying\<close> is the
    value of \<open>isIdentifying\<close> in the closure of \<open>identifyFrame\<close> that this loop calls:
    the effect depends on \<open>isRealtimeMode\<close> and \<open>isFocusedIdentification\<close> only, so
    the loop keeps the \<open>identifyFrame\<close> of the render in which the effect ran;
  \<^item> \<open>issued\<close> counts the calls issued so far; \<open>clock\<close> is the time in ms;
  \<^item> \<open>videoWidth\<close> and \<open>videoHeight\<close> are the intrinsic size of the video, 0 as long as
    no frame is available.
  Each event is handled up to its next \<open>await\<close>, and React renders and runs the effects
  before the next event. The video element and the canvas exist whenever the video
  has a frame, and the canvas gives a drawing context. The focus indicator and the
  photo capture are left out.
\<close>

datatype call = AmbientCall bool | FocusedCall crop

record controller =
  isRealtimeMode :: bool
  isIdentifying :: bool
  identifiedObject :: "string option"
  isFocusedIdentification :: bool
  rateLimitError :: "string option"
  realtimeTimeoutRef :: "nat option"
  focusedIdentTimeoutRef :: "nat option"
  rateLimitTimeoutRef :: "nat option"
  loopActive :: bool
  loopIsIdentifying :: bool
  outstanding :: "call list"
  issued :: nat
  clock :: nat
  videoWidth :: nat
  videoHeight :: nat
  app :: app

definition initialController :: controller where
  "initialController =
     \<lparr>isRealtimeMode = False, isIdentifying = False, identifiedObject = None,
      isFocusedIdentification = False, rateLimitError = None,
      realtimeTimeoutRef = None, focusedIdentTimeoutRef = None, rateLimitTimeoutRef = None,
      loopActive = False, loopIsIdentifying = False, outstanding = [], issued = 0,
      clock = 0, videoWidth = 0, videoHeight = 0, app = initialApp\<rparr>"

text \<open>
  \<open>identifyFrame\<close> up to its \<open>await\<close>, called through a closure in which
  \<open>isIdentifying\<close> has the value \<open>closureIsIdentifying\<close>. The result says whether a call
  was issued (the function is then suspended until the call settles); otherwise the
  function has returned at its guard.
\<close>

definition identifyFrame :: "bool \<Rightarrow> call \<Rightarrow> controller \<Rightarrow> bool \<times> controller" where
  "identifyFrame closureIsIdentifying c s =
     (if videoWidth s = 0 \<or> closureIsIdentifying then (False, s)
      else (True, s\<lparr>isIdentifying := True, outstanding := outstanding s @ [c],
                     issued := Suc (issued s)\<rparr>))"

text \<open>\<open>identifyFrame\<close> after its \<open>await\<close>: the result is stored, or the \<open>catch\<close> block runs; then \<open>finally\<close>.\<close>

definition identifyFrame_settle :: "api_error + string option \<Rightarrow> controller \<Rightarrow> controller" where
  "identifyFrame_settle outcome s =
     (case outcome of
        Inr result \<Rightarrow> s\<lparr>identifiedObject := result\<rparr>
      | Inl (ConfigError m) \<Rightarrow> s\<lparr>app := handleConfigError m (app s), isRealtimeMode := False\<rparr>
      | Inl (RateLimitError m) \<Rightarrow>
          s\<lparr>rateLimitError := Some m, isRealtimeMode := False,
            rateLimitTimeoutRef := Some (clock s + 5000)\<rparr>
      | Inl (Error m) \<Rightarrow> s)
     \<lparr>isIdentifying := False\<rparr>"

text \<open>
  \<open>identifyAndRepeat\<close>, as the effect and the timer call it: when \<open>identifyFrame\<close>
  returns at once, the loop sets its timer at once.
\<close>

definition identifyAndRepeat :: "controller \<Rightarrow> controller" where
  "identifyAndRepeat s =
     (case identifyFrame (loopIsIdentifying s) (AmbientCall False) s of
        (True, s1) \<Rightarrow> s1
      | (False, s1) \<Rightarrow>
          if loopActive s1 then s1\<lparr>realtimeTimeoutRef := Some (clock s1 + 5000)\<rparr> else s1)"

text \<open>
  The real-time effect: the cleanup of its last run, its body, and the render that
  runs both when one of the two dependencies differs from its value in \<open>prev\<close>, the
  state before the event.
\<close>

definition cancel :: "call \<Rightarrow> call" where
  "cancel c = (case c of AmbientCall b \<Rightarrow> AmbientCall True | FocusedCall r \<Rightarrow> FocusedCall r)"

definition effectCleanup :: "controller \<Rightarrow> controller" where
  "effectCleanup s =
     (if loopActive s
      then s\<lparr>outstanding := map cancel (outstanding s), realtimeTimeoutRef := None,
             loopActive := False\<rparr>
      else s)"

definition effectRun :: "controller \<Rightarrow> controller" where
  "effectRun s =
     (if \<not> isRealtimeMode s \<or> isFocusedIdentification s
      then (if \<not> isFocusedIdentification s then s\<lparr>identifiedObject := None\<rparr> else s)
      else identifyAndRepeat (s\<lparr>loopActive := True, loopIsIdentifying := isIdentifying s\<rparr>))"

definition render :: "controller \<Rightarrow> controller \<Rightarrow> controller" where
  "render prev s =
     (if isRealtimeMode prev \<noteq> isRealtimeMode s
         \<or> isFocusedIdentification prev \<noteq> isFocusedIdentification s
      then effectRun (effectCleanup s)
      else s)"

definition handleVideoClick :: "click \<Rightarrow> controller \<Rightarrow> controller" where
  "handleVideoClick ev s =
     (if \<not> isRealtimeMode s \<or> isIdentifying s then s
      else
        (let c = cropOfClick ev (videoWidth s) (videoHeight s);
             s1 = s\<lparr>isFocusedIdentification := True\<rparr>
         in case identifyFrame (isIdentifying s) (FocusedCall c) s1 of
              (True, s2) \<Rightarrow> render s s2
            | (False, s2) \<Rightarrow> render s (s2\<lparr>focusedIdentTimeoutRef := Some (clock s2 + 5000)\<rparr>)))"

text \<open>
  What the caller that awaited \<open>identifyFrame\<close> does once it has finished: the loop
  sets its next timer unless it was cancelled; \<open>handleVideoClick\<close> sets the timer that
  ends the focused display.
\<close>

definition resume :: "call \<Rightarrow> controller \<Rightarrow> controller" where
  "resume c s =
     (case c of
        AmbientCall isCancelled \<Rightarrow>
          if \<not> isCancelled then s\<lparr>realtimeTimeoutRef := Some (clock s + 5000)\<rparr> else s
      | FocusedCall r \<Rightarrow> s\<lparr>focusedIdentTimeoutRef := Some (clock s + 5000)\<rparr>)"

text \<open>
  The call at position \<open>i\<close> of the outstanding ones settles: \<open>identifyFrame\<close> finishes,
  its caller goes on, and React renders.
\<close>

definition settle :: "nat \<Rightarrow> api_error + string option \<Rightarrow> controller \<Rightarrow> controller option" where
  "settle i outcome s =
     (case js_index (outstanding s) i of
        None \<Rightarrow> None
      | Some c \<Rightarrow>
          Some (render s
            (resume c
              (identifyFrame_settle outcome
                (s\<lparr>outstanding := take i (outstanding s) @ drop (Suc i) (outstanding s)\<rparr>)))))"

text \<open>
  The events: the user toggles the real-time mode or taps the video, a call settles,
  one of the three timers fires, time passes, the video gets a new intrinsic size. A
  timer fires when its time has come, and time does not pass beyond a pending timer.
\<close>

datatype event =
    ToggleRealtime
  | VideoClick click
  | Settle nat "api_error + string option"
  | RealtimeTimeout
  | FocusedIdentTimeout
  | RateLimitTimeout
  | Elapse nat
  | VideoResize nat nat

definition due :: "nat option \<Rightarrow> nat \<Rightarrow> bool" where
  "due timer now = (case timer of None \<Rightarrow> False | Some t \<Rightarrow> t \<le> now)"

definition notBefore :: "nat option \<Rightarrow> nat \<Rightarrow> bool" where
  "notBefore timer now = (case timer of None \<Rightarrow> True | Some t \<Rightarrow> now \<le> t)"

fun step :: "controller \<Rightarrow> event \<Rightarrow> controller option" where
  "step s ToggleRealtime = Some (render s (s\<lparr>isRealtimeMode := \<not> isRealtimeMode s\<rparr>))"
| "step s (VideoClick ev) = Some (handleVideoClick ev s)"
| "step s (Settle i outcome) = settle i outcome s"
| "step s RealtimeTimeout =
     (if due (realtimeTimeoutRef s) (clock s)
      then Some (identifyAndRepeat (s\<lparr>realtimeTimeoutRef := None\<rparr>))
      else None)"
| "step s FocusedIdentTimeout =
     (if due (focusedIdentTimeoutRef s) (clock s)
      then Some (render s (s\<lparr>isFocusedIdentification := False, focusedIdentTimeoutRef := None\<rparr>))
      else None)"
| "step s RateLimitTimeout =
     (if due (rateLimitTimeoutRef s) (clock s)
      then Some (s\<lparr>rateLimitError := None, rateLimitTimeoutRef := None\<rparr>)
      else None)"
| "step s (Elapse d) =
     (if notBefore (realtimeTimeoutRef s) (clock s + d)
         \<and> notBefore (focusedIdentTimeoutRef s) (clock s + d)
         \<and> notBefore (rateLimitTimeoutRef s) (clock s + d)
      then Some (s\<lparr>clock := clock s + d\<rparr>)
      else None)"
| "step s (VideoResize w h) = Some (s\<lparr>videoWidth := w, videoHeight := h\<rparr>)"

fun run :: "controller \<Rightarrow> event list \<Rightarrow> controller option" where
  "run s [] = Some s"
| "run s (e # es) = (case step s e of None \<Rightarrow> None | Some s1 \<Rightarrow> run s1 es)"

subsection \<open>Invariants of the identification loop\<close>

text \<open>
  What holds in every state the component can reach.
  \<^item> \<open>loopCore\<close>: at most one call is outstanding, and \<open>isIdentifying\<close> says whether one
    is; the timer of the loop is pending only while a loop is active; and while an
    active loop awaits its own call, its timer is not pending.
  \<^item> \<open>loopClosure\<close>: a loop is active only in real-time mode outside a focused
    identification; and a loop whose timer is pending while a call is outstanding has
    a closure that sees \<open>isIdentifying\<close> set.
  \<^item> \<open>focusInvariant\<close>: the timer that ends the focused display is not overdue and at
    most 5000 ms ahead; while the display is focused, that timer is pending or a
    focused call is outstanding.
\<close>

definition loopCore :: "controller \<Rightarrow> bool" where
  "loopCore s \<longleftrightarrow>
     length (outstanding s) \<le> 1
     \<and> (isIdentifying s \<longleftrightarrow> outstanding s \<noteq> [])
     \<and> (realtimeTimeoutRef s \<noteq> None \<longrightarrow> loopActive s)
     \<and> (AmbientCall False \<in> set (outstanding s) \<longrightarrow> loopActive s \<and> realtimeTimeoutRef s = None)"

definition loopClosure :: "controller \<Rightarrow> bool" where
  "loopClosure s \<longleftrightarrow>
     (loopActive s \<longrightarrow> isRealtimeMode s \<and> \<not> isFocusedIdentification s)
     \<and> (realtimeTimeoutRef s \<noteq> None \<and> isIdentifying s \<longrightarrow> loopIsIdentifying s)"

definition loopInvariant :: "controller \<Rightarrow> bool" where
  "loopInvariant s \<longleftrightarrow> loopCore s \<and> loopClosure s"

definition focusedPending :: "controller \<Rightarrow> bool" where
  "focusedPending s \<longleftrightarrow> (\<exists>c \<in> set (outstanding s). case c of FocusedCall r \<Rightarrow> True | AmbientCall b \<Rightarrow> False)"

definition focusInvariant :: "controller \<Rightarrow> bool" where
  "focusInvariant s \<longleftrightarrow>
     (case focusedIdentTimeoutRef s of
        None \<Rightarrow> True
      | Some t \<Rightarrow> clock s \<le> t \<and> t \<le> clock s + 5000)
     \<and> (isFocusedIdentification s \<longrightarrow> focusedIdentTimeoutRef s \<noteq> None \<or> focusedPending s)"

text \<open>
  The component at rest: the real-time mode is off, no call is outstanding, no loop is
  active and the timer of the loop is not pending.
\<close>

definition atRest :: "controller \<Rightarrow> bool" where
  "atRest s \<longleftrightarrow>
     \<not> isRealtimeMode s \<and> \<not> isIdentifying s \<and> outstanding s = []
     \<and> \<not> loopActive s \<and> realtimeTimeoutRef s = None"

text \<open>
  The cooldown after a rate limit error with the message \<open>m\<close>, ending at the time
  \<open>T\<close>: the component is at rest; up to \<open>T\<close> the message is shown and the timer that
  clears it is set to \<open>T\<close>, from \<open>T\<close> on the message is gone; and a focused display
  ends at \<open>T\<close> at the latest.
\<close>

definition coolingDown :: "nat \<Rightarrow> string \<Rightarrow> controller \<Rightarrow> bool" where
  "coolingDown T m s \<longleftrightarrow>
     atRest s
     \<and> (rateLimitTimeoutRef s = Some T \<and> rateLimitError s = Some m \<and> clock s \<le> T
          \<or> rateLimitTimeoutRef s = None \<and> rateLimitError s = None \<and> T \<le> clock s)
     \<and> (case focusedIdentTimeoutRef s of
          None \<Rightarrow> \<not> isFocusedIdentification s
        | Some t \<Rightarrow> clock s \<le> t \<and> t \<le> T)"

section \<open>Notions of the specification\<close>

text \<open>
  A label contains a word case-insensitively when some substring of the label becomes
  the word once its letters are put in lower case.
\<close>

definition containsIgnoringCase :: "string \<Rightarrow> string \<Rightarrow> bool" where
  "containsIgnoringCase s w \<longleftrightarrow> (\<exists>u m v. s = u @ m @ v \<and> map lowerChar m = w)"

section \<open>Example states\<close>

text \<open>
  A camera with an open stream of one track and the zoom capability
  \<open>{min: 1, max: 4, step: 0.5}\<close>; a chat about a captured image with one answer in
  its history; a front and a back camera; a tap near the upper left corner of a video
  element of 320 by 240.
\<close>

definition zoomCamera :: camera where
  "zoomCamera =
     initialCamera\<lparr>capabilities := \<lparr>flashSupported = False, zoomSupported = True,
                                     zoomMin = 1, zoomMax = 4, zoomStep = 1 / 2\<rparr>,
                   streamRef := Some [\<lparr>appliedZoom = None\<rparr>]\<rparr>"

definition chatApp :: app where
  "chatApp =
     initialApp\<lparr>currentView := Results,
                capturedImage := Some ''data:image/jpeg;base64,AAAA'',
                messages := [(1, \<lparr>author = AI, msgText = ''A mug.''\<rparr>)]\<rparr>"

definition frontCam :: device where
  "frontCam = \<lparr>kind = VideoInput, deviceId = ''cam0'', label = ''Front Camera''\<rparr>"

definition backCam :: device where
  "backCam = \<lparr>kind = VideoInput, deviceId = ''cam1'', label = ''Back Camera''\<rparr>"

definition tap0 :: click where
  "tap0 = \<lparr>clientX = 10, clientY = 20, rectLeft = 0, rectTop = 0, rectWidth = 320, rectHeight = 240\<rparr>"

section \<open>Properties of the string functions\<close>

lemma js_split_not_Nil: "js_split sep s \<noteq> []"
  by (induction s) (auto split: list.splits)

lemma js_split_first: "js_index (js_split sep s) 0 = Some (takeWhile (\<lambda>c. c \<noteq> sep) s)"
  by (induction s) (auto split: list.splits simp: js_split_not_Nil)

lemma js_split_no_sep: "sep \<notin> set s \<Longrightarrow> js_split sep s = [s]"
  by (induction s) auto

lemma js_split_append:
  "sep \<notin> set pre \<Longrightarrow> js_split sep (pre @ sep # rest) = pre # js_split sep rest"
  by (induction pre) auto

lemma replaceLineBreaks_LF: "CHR 0x0A \<notin> set (replaceLineBreaks s)"
  by (induction s rule: replaceLineBreaks.induct) auto

lemma replaceLineBreaks_CR: "CHR 0x0D \<notin> set (replaceLineBreaks s)"
  by (induction s rule: replaceLineBreaks.induct) auto

lemma takeWhile_no_sep: "sep \<notin> set (takeWhile (\<lambda>c. c \<noteq> sep) s)"
  by (induction s) auto

lemma startsWith_iff: "startsWith s t \<longleftrightarrow> (\<exists>v. s = t @ v)"
  by (induction s t rule: startsWith.induct) auto

lemma js_includes_iff: "js_includes s t \<longleftrightarrow> (\<exists>u v. s = u @ t @ v)"
proof (induction s)
  case Nil
  then show ?case by auto
next
  case (Cons c cs)
  show ?case
  proof
    assume "js_includes (c # cs) t"
    then consider "startsWith (c # cs) t" | "js_includes cs t" by auto
    then show "\<exists>u v. c # cs = u @ t @ v"
    proof cases
      case 1
      then obtain v where "c # cs = t @ v" by (auto simp: startsWith_iff)
      then have "c # cs = [] @ t @ v" by simp
      then show ?thesis by blast
    next
      case 2
      with Cons.IH obtain u v where "cs = u @ t @ v" by blast
      then have "c # cs = (c # u) @ t @ v" by simp
      then show ?thesis by blast
    qed
  next
    assume "\<exists>u v. c # cs = u @ t @ v"
    then obtain u v where uv: "c # cs = u @ t @ v" by blast
    show "js_includes (c # cs) t"
    proof (cases u)
      case Nil
      with uv have "startsWith (c # cs) t" by (auto simp: startsWith_iff)
      then show ?thesis by simp
    next
      case (Cons a u')
      with uv have "cs = u' @ t @ v" by simp
      with Cons.IH have "js_includes cs t" by blast
      then show ?thesis by simp
    qed
  qed
qed

lemma js_includes_toLowerCase:
  "js_includes (toLowerCase s) w \<longleftrightarrow> containsIgnoringCase s w"
proof
  assume "js_includes (toLowerCase s) w"
  then obtain u v where "map lowerChar s = u @ w @ v"
    by (auto simp: js_includes_iff toLowerCase_def)
  then obtain us r where r: "s = us @ r" "w @ v = map lowerChar r"
    by (auto simp: map_eq_append_conv)
  then obtain m vs where "r = m @ vs" "map lowerChar m = w"
    by (auto simp: append_eq_map_conv)
  with r(1) have "s = us @ m @ vs \<and> map lowerChar m = w" by simp
  then show "containsIgnoringCase s w"
    unfolding containsIgnoringCase_def by blast
next
  assume "containsIgnoringCase s w"
  then obtain u m v where "s = u @ m @ v" "map lowerChar m = w"
    unfolding containsIgnoringCase_def by blast
  then have "toLowerCase s = map lowerChar u @ w @ map lowerChar v"
    by (simp add: toLowerCase_def)
  then show "js_includes (toLowerCase s) w"
    unfolding js_includes_iff by blast
qed

section \<open>dataUrlToBase64\<close>

text \<open>
  C9, as the code has it. A string with a comma is \<open>pre @ CHR '','' # rest\<close> with no
  comma in \<open>pre\<close>. The function returns the part of \<open>rest\<close> before its first comma (all
  of \<open>rest\<close> when it has none), so the whole substring after the first comma only when
  the string has exactly one comma. For a string without a comma it returns
  \<open>undefined\<close>.
\<close>

theorem dataUrlToBase64_segment:
  "(CHR '','' \<notin> set pre \<longrightarrow>
      dataUrlToBase64 (pre @ CHR '','' # rest) = Some (takeWhile (\<lambda>c. c \<noteq> CHR '','') rest))
   \<and> (CHR '','' \<notin> set pre \<and> CHR '','' \<notin> set rest \<longrightarrow>
      dataUrlToBase64 (pre @ CHR '','' # rest) = Some rest)
   \<and> (CHR '','' \<notin> set s \<longrightarrow> dataUrlToBase64 s = None)"
proof (intro conjI impI)
  assume pre: "CHR '','' \<notin> set pre"
  then show "dataUrlToBase64 (pre @ CHR '','' # rest) = Some (takeWhile (\<lambda>c. c \<noteq> CHR '','') rest)"
    unfolding dataUrlToBase64_def by (simp add: js_split_append js_split_first)
next
  assume "CHR '','' \<notin> set pre \<and> CHR '','' \<notin> set rest"
  then have pre: "CHR '','' \<notin> set pre" and rest: "CHR '','' \<notin> set rest" by simp_all
  have "takeWhile (\<lambda>c. c \<noteq> CHR '','') rest = rest"
    using rest by (simp add: takeWhile_eq_all_conv) blast
  with pre show "dataUrlToBase64 (pre @ CHR '','' # rest) = Some rest"
    unfolding dataUrlToBase64_def by (simp add: js_split_append js_split_first)
next
  assume "CHR '','' \<notin> set s"
  then show "dataUrlToBase64 s = None"
    unfolding dataUrlToBase64_def by (simp add: js_split_no_sep)
qed

theorem dataUrlToBase64_segment_witness:
  "dataUrlToBase64 ''data:image/jpeg;base64,AAAA,BB'' = Some ''AAAA''
   \<and> dataUrlToBase64 ''data:image/jpeg;base64,AAAA'' = Some ''AAAA''
   \<and> dataUrlToBase64 ''AAAA'' = None"
  using dataUrlToBase64_segment [of "''data:image/jpeg;base64''" "''AAAA,BB''" "''AAAA''"]
        dataUrlToBase64_segment [of "''data:image/jpeg;base64''" "''AAAA''" "''AAAA''"]
  by simp

text \<open>
  The claim as stated fails on a string with two commas: the substring after the first
  comma of \<open>a,b,c\<close> is \<open>b,c\<close>, and the function returns \<open>b\<close>.
\<close>

theorem dataUrlToBase64_counterexample:
  "dataUrlToBase64 ''a,b,c'' = Some ''b''
   \<and> dataUrlToBase64 ''a,b,c'' \<noteq> Some (tl (dropWhile (\<lambda>c. c \<noteq> CHR '','') ''a,b,c''))"
  by (simp add: dataUrlToBase64_def)

section \<open>getQuickObjectName\<close>

lemma generateVisionContent_Inr:
  "generateVisionContent cfg remote img prompt = Inr r \<Longrightarrow>
     \<exists>t. remote img prompt = Response (Some t) \<and> t \<noteq> [] \<and> r = trim t"
  by (auto simp: generateVisionContent_def split: sum.splits remote.splits option.splits if_splits)

text \<open>
  C10. When \<open>getQuickObjectName\<close> succeeds, the model has answered with a non-empty
  text \<open>t\<close>, and the result is a string: what comes before the first period of the
  trimmed \<open>t\<close> with its line breaks replaced by spaces. It has no line feed, no
  carriage return and no period.
\<close>

theorem getQuickObjectName_clean:
  assumes "getQuickObjectName cfg remote img = Inr r"
  shows "\<exists>t name. remote img quickPrompt = Response (Some t) \<and> t \<noteq> [] \<and> r = Some name
           \<and> name = takeWhile (\<lambda>c. c \<noteq> CHR ''.'') (replaceLineBreaks (trim t))
           \<and> CHR 0x0A \<notin> set name \<and> CHR 0x0D \<notin> set name \<and> CHR ''.'' \<notin> set name"
proof -
  from assms obtain response where
    gen: "generateVisionContent cfg remote img quickPrompt = Inr response" and
    r: "r = js_index (js_split CHR ''.'' (replaceLineBreaks response)) 0"
    by (auto simp: getQuickObjectName_def split: sum.splits)
  from generateVisionContent_Inr [OF gen] obtain t where
    t: "remote img quickPrompt = Response (Some t)" "t \<noteq> []" "response = trim t"
    by blast
  let ?name = "takeWhile (\<lambda>c. c \<noteq> CHR ''.'') (replaceLineBreaks (trim t))"
  have "r = Some ?name"
    using r t(3) by (simp only: js_split_first)
  moreover have "CHR 0x0A \<notin> set ?name"
    using replaceLineBreaks_LF [of "trim t"] by (auto dest: set_takeWhileD)
  moreover have "CHR 0x0D \<notin> set ?name"
    using replaceLineBreaks_CR [of "trim t"] by (auto dest: set_takeWhileD)
  moreover have "CHR ''.'' \<notin> set ?name"
    by (rule takeWhile_no_sep)
  ultimately show ?thesis
    using t(1,2) by blast
qed

theorem getQuickObjectName_clean_witness:
  "getQuickObjectName \<lparr>VITE_API_KEY = None, API_KEY = None, ai = True\<rparr>
     (\<lambda>img prompt. Response (Some ('' Coffee'' @ [CHR 0x0D, CHR 0x0A] @ ''mug. It is blue.'' @ [CHR 0x0A])))
     (Some ''AAAA'') = Inr (Some ''Coffee mug'')
   \<and> CHR 0x0A \<notin> set ''Coffee mug'' \<and> CHR 0x0D \<notin> set ''Coffee mug'' \<and> CHR ''.'' \<notin> set ''Coffee mug''"
proof -
  have h: "getQuickObjectName \<lparr>VITE_API_KEY = None, API_KEY = None, ai = True\<rparr>
     (\<lambda>img prompt. Response (Some ('' Coffee'' @ [CHR 0x0D, CHR 0x0A] @ ''mug. It is blue.'' @ [CHR 0x0A])))
     (Some ''AAAA'') = Inr (Some ''Coffee mug'')"
    by (simp add: getQuickObjectName_def generateVisionContent_def getAi_def trim_def isWhiteSpace_def)
  from getQuickObjectName_clean [OF h] h show ?thesis
    by blast
qed

section \<open>switchCamera\<close>

lemma findIndex_none: "(\<forall>x\<in>set xs. \<not> P x) \<Longrightarrow> findIndex P xs = - 1"
  by (induction xs) auto

lemma findIndex_first:
  "k < length xs \<Longrightarrow> P (xs ! k) \<Longrightarrow> (\<forall>j<k. \<not> P (xs ! j)) \<Longrightarrow> findIndex P xs = int k"
proof (induction xs arbitrary: k)
  case Nil
  then show ?case by simp
next
  case (Cons x xs)
  show ?case
  proof (cases k)
    case 0
    with Cons.prems show ?thesis by simp
  next
    case (Suc k')
    with Cons.prems have "\<not> P x" by auto
    moreover from Suc Cons.prems have "findIndex P xs = int k'"
      by (intro Cons.IH) auto
    ultimately show ?thesis using Suc by (simp add: Let_def)
  qed
qed

lemma js_index_nth: "i < length xs \<Longrightarrow> js_index xs i = Some (xs ! i)"
  by (induction xs i rule: js_index.induct) auto

lemma js_rem_nonneg: "0 \<le> a \<Longrightarrow> 0 < b \<Longrightarrow> js_rem a b = a mod b"
  by (cases "a = 0") (auto simp: js_rem_def)

lemma switchCamera_at:
  assumes "2 \<le> length (devices s)"
      and "findIndex (\<lambda>d. Some (deviceId d) = currentDeviceId s) (devices s) = i"
      and "- 1 \<le> i"
  shows "switchCamera s =
           Inr (s\<lparr>currentDeviceId := Some (deviceId (devices s ! (nat (i + 1) mod length (devices s))))\<rparr>)"
proof -
  let ?n = "length (devices s)"
  have pos: "0 < ?n"
    using assms(1) by linarith
  have rem: "js_rem (i + 1) (int ?n) = (i + 1) mod int ?n"
    using assms by (intro js_rem_nonneg) auto
  have eq: "nat ((i + 1) mod int ?n) = nat (i + 1) mod ?n"
    using assms(3) by (simp add: nat_mod_distrib)
  have lt: "nat (i + 1) mod ?n < ?n"
    using pos by simp
  have nonneg: "\<not> (i + 1) mod int ?n < 0"
    using pos by (simp add: not_less)
  show ?thesis
    unfolding switchCamera_def Let_def assms(2) rem
    using assms(1) nonneg by (simp add: eq js_index_nth [OF lt])
qed

text \<open>
  C6. With fewer than two devices \<open>switchCamera\<close> changes nothing. With two or more,
  it never throws; when the current selection is the device at index \<open>k\<close> (the first
  with that identifier), it selects the device at index \<open>(k + 1) mod n\<close>, \<open>n\<close> the
  number of devices; when no device has the current identifier, \<open>findIndex\<close> gives -1
  and it selects the device at index \<open>(-1 + 1) mod n = 0\<close>.
\<close>

theorem switchCamera_cyclic:
  "(length (devices s) < 2 \<longrightarrow> switchCamera s = Inr s)
   \<and> (2 \<le> length (devices s) \<and> k < length (devices s)
        \<and> currentDeviceId s = Some (deviceId (devices s ! k))
        \<and> (\<forall>j<k. deviceId (devices s ! j) \<noteq> deviceId (devices s ! k))
      \<longrightarrow> switchCamera s =
            Inr (s\<lparr>currentDeviceId := Some (deviceId (devices s ! ((k + 1) mod length (devices s))))\<rparr>))
   \<and> (2 \<le> length (devices s) \<and> (\<forall>d\<in>set (devices s). Some (deviceId d) \<noteq> currentDeviceId s)
      \<longrightarrow> switchCamera s = Inr (s\<lparr>currentDeviceId := Some (deviceId (devices s ! 0))\<rparr>))"
proof (intro conjI impI)
  assume "length (devices s) < 2"
  then show "switchCamera s = Inr s" by (simp add: switchCamera_def)
next
  assume a: "2 \<le> length (devices s) \<and> k < length (devices s)
        \<and> currentDeviceId s = Some (deviceId (devices s ! k))
        \<and> (\<forall>j<k. deviceId (devices s ! j) \<noteq> deviceId (devices s ! k))"
  then have "findIndex (\<lambda>d. Some (deviceId d) = currentDeviceId s) (devices s) = int k"
    by (intro findIndex_first) auto
  from switchCamera_at [OF _ this] a
  show "switchCamera s =
            Inr (s\<lparr>currentDeviceId := Some (deviceId (devices s ! ((k + 1) mod length (devices s))))\<rparr>)"
    by (simp add: nat_add_distrib)
next
  assume a: "2 \<le> length (devices s) \<and> (\<forall>d\<in>set (devices s). Some (deviceId d) \<noteq> currentDeviceId s)"
  then have "findIndex (\<lambda>d. Some (deviceId d) = currentDeviceId s) (devices s) = - 1"
    by (intro findIndex_none) auto
  from switchCamera_at [OF _ this] a
  show "switchCamera s = Inr (s\<lparr>currentDeviceId := Some (deviceId (devices s ! 0))\<rparr>)"
    by simp
qed

theorem switchCamera_cyclic_witness:
  "switchCamera (initialCamera\<lparr>devices := [frontCam, backCam, frontCam\<lparr>deviceId := ''cam2''\<rparr>],
                               currentDeviceId := Some ''cam2''\<rparr>)
     = Inr (initialCamera\<lparr>devices := [frontCam, backCam, frontCam\<lparr>deviceId := ''cam2''\<rparr>],
                          currentDeviceId := Some ''cam0''\<rparr>)
   \<and> switchCamera (initialCamera\<lparr>devices := [frontCam], currentDeviceId := Some ''cam0''\<rparr>)
     = Inr (initialCamera\<lparr>devices := [frontCam], currentDeviceId := Some ''cam0''\<rparr>)
   \<and> switchCamera (initialCamera\<lparr>devices := [frontCam, backCam], currentDeviceId := None\<rparr>)
     = Inr (initialCamera\<lparr>devices := [frontCam, backCam], currentDeviceId := Some ''cam0''\<rparr>)"
  using switchCamera_cyclic [of "initialCamera\<lparr>devices := [frontCam, backCam, frontCam\<lparr>deviceId := ''cam2''\<rparr>],
                               currentDeviceId := Some ''cam2''\<rparr>" 2]
    switchCamera_cyclic [of "initialCamera\<lparr>devices := [frontCam], currentDeviceId := Some ''cam0''\<rparr>" 0]
    switchCamera_cyclic [of "initialCamera\<lparr>devices := [frontCam, backCam], currentDeviceId := None\<rparr>" 0]
  by (simp add: frontCam_def backCam_def less_Suc_eq numeral_3_eq_3 numeral_2_eq_2)

section \<open>The initial selection of enumerateDevices\<close>

lemma find_first:
  "k < length xs \<Longrightarrow> P (xs ! k) \<Longrightarrow> (\<forall>j<k. \<not> P (xs ! j)) \<Longrightarrow> find P xs = Some (xs ! k)"
  by (auto simp: find_Some_iff)

lemma find_none: "(\<forall>x\<in>set xs. \<not> P x) \<Longrightarrow> find P xs = None"
  by (simp add: find_None_iff)

lemma enumerateDevices_video:
  assumes "filter (\<lambda>d. kind d = VideoInput) allDevices = first # others"
  shows "enumerateDevices (Inr allDevices) s =
     s\<lparr>devices := first # others,
       currentDeviceId :=
         Some (case find (\<lambda>d. containsIgnoringCase (label d) ''back'') (first # others) of
                 None \<Rightarrow> deviceId first
               | Some b \<Rightarrow> if deviceId b \<noteq> [] then deviceId b else deviceId first)\<rparr>"
  unfolding enumerateDevices_def by (simp add: assms Let_def js_includes_toLowerCase)

lemma enumerateDevices_first_back:
  assumes "videoDevices = filter (\<lambda>d. kind d = VideoInput) allDevices"
      and "videoDevices \<noteq> []"
  shows "devices (enumerateDevices (Inr allDevices) s) = videoDevices
     \<and> (k < length videoDevices \<and> containsIgnoringCase (label (videoDevices ! k)) ''back''
          \<and> (\<forall>j<k. \<not> containsIgnoringCase (label (videoDevices ! j)) ''back'')
          \<and> deviceId (videoDevices ! k) \<noteq> []
         \<longrightarrow> currentDeviceId (enumerateDevices (Inr allDevices) s) = Some (deviceId (videoDevices ! k)))
     \<and> ((\<forall>d\<in>set videoDevices. \<not> containsIgnoringCase (label d) ''back'')
         \<longrightarrow> currentDeviceId (enumerateDevices (Inr allDevices) s) = Some (deviceId (videoDevices ! 0)))"
proof -
  from assms(2) obtain first others where vd: "videoDevices = first # others"
    by (cases videoDevices) auto
  with assms(1) have f: "filter (\<lambda>d. kind d = VideoInput) allDevices = first # others" by simp
  note e = enumerateDevices_video [OF f]
  have 1: "devices (enumerateDevices (Inr allDevices) s) = videoDevices"
    by (simp add: e vd)
  have 2: "currentDeviceId (enumerateDevices (Inr allDevices) s) = Some (deviceId (videoDevices ! k))"
    if a: "k < length videoDevices \<and> containsIgnoringCase (label (videoDevices ! k)) ''back''
          \<and> (\<forall>j<k. \<not> containsIgnoringCase (label (videoDevices ! j)) ''back'')
          \<and> deviceId (videoDevices ! k) \<noteq> []"
  proof -
    from a have "find (\<lambda>d. containsIgnoringCase (label d) ''back'') videoDevices = Some (videoDevices ! k)"
      by (intro find_first) auto
    with a show ?thesis
      by (simp add: e vd [symmetric])
  qed
  have 3: "currentDeviceId (enumerateDevices (Inr allDevices) s) = Some (deviceId (videoDevices ! 0))"
    if "\<forall>d\<in>set videoDevices. \<not> containsIgnoringCase (label d) ''back''"
  proof -
    from that have "find (\<lambda>d. containsIgnoringCase (label d) ''back'') videoDevices = None"
      by (intro find_none) auto
    then show ?thesis
      by (simp add: e vd [symmetric]) (simp add: vd)
  qed
  from 1 2 3 show ?thesis by blast
qed

lemma enumerateDevices_switch_twice:
  assumes "kind fore = VideoInput" "kind rear = VideoInput"
      and "\<not> containsIgnoringCase (label fore) ''back''"
      and "containsIgnoringCase (label rear) ''back''"
      and "deviceId rear \<noteq> []"
  shows "\<exists>s1 s2 s3. s1 = enumerateDevices (Inr [fore, rear]) s
           \<and> currentDeviceId s1 = Some (deviceId rear)
           \<and> switchCamera s1 = Inr s2 \<and> currentDeviceId s2 = Some (deviceId fore)
           \<and> switchCamera s2 = Inr s3 \<and> currentDeviceId s3 = Some (deviceId rear)"
proof -
  have e: "enumerateDevices (Inr [fore, rear]) s =
      s\<lparr>devices := [fore, rear], currentDeviceId := Some (deviceId rear)\<rparr>"
    using assms by (simp add: enumerateDevices_video [of "[fore, rear]" fore "[rear]"])
  have s1: "switchCamera (s\<lparr>devices := [fore, rear], currentDeviceId := Some (deviceId rear)\<rparr>) =
      Inr (s\<lparr>devices := [fore, rear], currentDeviceId := Some (deviceId fore)\<rparr>)"
    by (simp add: switchCamera_def js_rem_def Let_def)
  have s2: "switchCamera (s\<lparr>devices := [fore, rear], currentDeviceId := Some (deviceId fore)\<rparr>) =
      Inr (s\<lparr>devices := [fore, rear], currentDeviceId := Some (deviceId rear)\<rparr>)"
    by (simp add: switchCamera_def js_rem_def Let_def)
  show ?thesis
    unfolding e using s1 s2 by simp
qed

text \<open>
  C7, as the code has it. For a non-empty list of video devices: when the first device
  whose label contains \<open>back\<close> case-insensitively has a non-empty identifier, the initial
  selection is that device; when no label contains \<open>back\<close>, it is the first device.
  With the list \<open>[fore, rear]\<close> of a front and a back camera, where only the label of
  \<open>rear\<close> contains \<open>back\<close> and the identifier of \<open>rear\<close> is not empty, the initial
  selection is \<open>rear\<close>, one switch selects \<open>fore\<close> and a second switch selects \<open>rear\<close>
  again.
\<close>

theorem enumerateDevices_selection:
  "(videoDevices = filter (\<lambda>d. kind d = VideoInput) allDevices \<and> videoDevices \<noteq> [] \<longrightarrow>
      devices (enumerateDevices (Inr allDevices) s) = videoDevices
      \<and> (k < length videoDevices \<and> containsIgnoringCase (label (videoDevices ! k)) ''back''
            \<and> (\<forall>j<k. \<not> containsIgnoringCase (label (videoDevices ! j)) ''back'')
            \<and> deviceId (videoDevices ! k) \<noteq> []
          \<longrightarrow> currentDeviceId (enumerateDevices (Inr allDevices) s) = Some (deviceId (videoDevices ! k)))
      \<and> ((\<forall>d\<in>set videoDevices. \<not> containsIgnoringCase (label d) ''back'')
          \<longrightarrow> currentDeviceId (enumerateDevices (Inr allDevices) s) = Some (deviceId (videoDevices ! 0))))
   \<and> (kind fore = VideoInput \<and> kind rear = VideoInput
        \<and> \<not> containsIgnoringCase (label fore) ''back''
        \<and> containsIgnoringCase (label rear) ''back'' \<and> deviceId rear \<noteq> [] \<longrightarrow>
      (\<exists>s1 s2 s3. s1 = enumerateDevices (Inr [fore, rear]) s
           \<and> currentDeviceId s1 = Some (deviceId rear)
           \<and> switchCamera s1 = Inr s2 \<and> currentDeviceId s2 = Some (deviceId fore)
           \<and> switchCamera s2 = Inr s3 \<and> currentDeviceId s3 = Some (deviceId rear)))"
proof (rule conjI; rule impI)
  assume a: "videoDevices = filter (\<lambda>d. kind d = VideoInput) allDevices \<and> videoDevices \<noteq> []"
  then show "devices (enumerateDevices (Inr allDevices) s) = videoDevices
      \<and> (k < length videoDevices \<and> containsIgnoringCase (label (videoDevices ! k)) ''back''
            \<and> (\<forall>j<k. \<not> containsIgnoringCase (label (videoDevices ! j)) ''back'')
            \<and> deviceId (videoDevices ! k) \<noteq> []
          \<longrightarrow> currentDeviceId (enumerateDevices (Inr allDevices) s) = Some (deviceId (videoDevices ! k)))
      \<and> ((\<forall>d\<in>set videoDevices. \<not> containsIgnoringCase (label d) ''back'')
          \<longrightarrow> currentDeviceId (enumerateDevices (Inr allDevices) s) = Some (deviceId (videoDevices ! 0)))"
    using enumerateDevices_first_back [of videoDevices allDevices s k] by blast
next
  assume "kind fore = VideoInput \<and> kind rear = VideoInput
        \<and> \<not> containsIgnoringCase (label fore) ''back''
        \<and> containsIgnoringCase (label rear) ''back'' \<and> deviceId rear \<noteq> []"
  then show "\<exists>s1 s2 s3. s1 = enumerateDevices (Inr [fore, rear]) s
           \<and> currentDeviceId s1 = Some (deviceId rear)
           \<and> switchCamera s1 = Inr s2 \<and> currentDeviceId s2 = Some (deviceId fore)
           \<and> switchCamera s2 = Inr s3 \<and> currentDeviceId s3 = Some (deviceId rear)"
    using enumerateDevices_switch_twice [of fore rear s] by blast
qed

lemma frontCam_no_back: "\<not> containsIgnoringCase (label frontCam) ''back''"
  by (simp add: js_includes_toLowerCase [symmetric] toLowerCase_def lowerChar_def frontCam_def)

lemma backCam_back: "containsIgnoringCase (label backCam) ''back''"
  by (simp add: js_includes_toLowerCase [symmetric] toLowerCase_def lowerChar_def backCam_def)

theorem enumerateDevices_selection_witness:
  "currentDeviceId (enumerateDevices
      (Inr [\<lparr>kind = AudioInput, deviceId = ''mic0'', label = ''Back microphone''\<rparr>, frontCam, backCam])
      initialCamera) = Some ''cam1''
   \<and> currentDeviceId (enumerateDevices (Inr [frontCam, frontCam\<lparr>deviceId := ''cam2''\<rparr>]) initialCamera)
       = Some ''cam0''
   \<and> (\<exists>s1 s2 s3. s1 = enumerateDevices (Inr [frontCam, backCam]) initialCamera
           \<and> currentDeviceId s1 = Some ''cam1''
           \<and> switchCamera s1 = Inr s2 \<and> currentDeviceId s2 = Some ''cam0''
           \<and> switchCamera s2 = Inr s3 \<and> currentDeviceId s3 = Some ''cam1'')"
proof -
  have fk: "kind frontCam = VideoInput" "deviceId frontCam = ''cam0''"
    and bk: "kind backCam = VideoInput" "deviceId backCam = ''cam1''"
    by (simp_all add: frontCam_def backCam_def)
  have f2: "label (frontCam\<lparr>deviceId := ''cam2''\<rparr>) = label frontCam"
    "kind (frontCam\<lparr>deviceId := ''cam2''\<rparr>) = VideoInput"
    by (simp_all add: frontCam_def)
  have 1: "currentDeviceId (enumerateDevices
      (Inr [\<lparr>kind = AudioInput, deviceId = ''mic0'', label = ''Back microphone''\<rparr>, frontCam, backCam])
      initialCamera) = Some ''cam1''"
    using enumerateDevices_selection [of "[frontCam, backCam]"
        "[\<lparr>kind = AudioInput, deviceId = ''mic0'', label = ''Back microphone''\<rparr>, frontCam, backCam]"
        initialCamera 1]
      frontCam_no_back backCam_back
    by (simp add: fk bk)
  have 2: "currentDeviceId (enumerateDevices (Inr [frontCam, frontCam\<lparr>deviceId := ''cam2''\<rparr>]) initialCamera)
       = Some ''cam0''"
    using enumerateDevices_selection [of "[frontCam, frontCam\<lparr>deviceId := ''cam2''\<rparr>]"
        "[frontCam, frontCam\<lparr>deviceId := ''cam2''\<rparr>]" initialCamera]
      frontCam_no_back
    by (simp add: fk f2)
  have 3: "\<exists>s1 s2 s3. s1 = enumerateDevices (Inr [frontCam, backCam]) initialCamera
           \<and> currentDeviceId s1 = Some ''cam1''
           \<and> switchCamera s1 = Inr s2 \<and> currentDeviceId s2 = Some ''cam0''
           \<and> switchCamera s2 = Inr s3 \<and> currentDeviceId s3 = Some ''cam1''"
    using enumerateDevices_selection [of _ _ initialCamera _ frontCam backCam]
      frontCam_no_back backCam_back
    by (simp add: fk bk)
  from 1 2 3 show ?thesis by blast
qed

text \<open>
  The claim as stated fails when the first device whose label contains \<open>back\<close> has the
  empty string as its identifier: the operator \<open>||\<close> then falls through to the first
  device of the list.
\<close>

theorem enumerateDevices_counterexample:
  "containsIgnoringCase (label (backCam\<lparr>deviceId := ''''\<rparr>)) ''back''
   \<and> \<not> containsIgnoringCase (label frontCam) ''back''
   \<and> currentDeviceId (enumerateDevices (Inr [frontCam, backCam\<lparr>deviceId := ''''\<rparr>]) initialCamera)
       = Some (deviceId frontCam)
   \<and> currentDeviceId (enumerateDevices (Inr [frontCam, backCam\<lparr>deviceId := ''''\<rparr>]) initialCamera)
       \<noteq> Some (deviceId (backCam\<lparr>deviceId := ''''\<rparr>))"
  by (simp add: js_includes_toLowerCase [symmetric] toLowerCase_def lowerChar_def
      enumerateDevices_def frontCam_def backCam_def)

section \<open>setZoomValue\<close>

text \<open>
  C3, as the code has it. When zoom is supported and a stream is open, the observable
  zoom becomes the requested value as it is, whether the hardware accepts it or not;
  nothing compares the value with the capability. Otherwise the request changes
  nothing.
\<close>

theorem setZoomValue_stores_request:
  "(zoomSupported (capabilities s) \<and> streamRef s \<noteq> None \<longrightarrow> zoom (setZoomValue accepted v s) = v)
   \<and> (\<not> (zoomSupported (capabilities s) \<and> streamRef s \<noteq> None) \<longrightarrow> setZoomValue accepted v s = s)"
  by (auto simp: setZoomValue_def Let_def split: option.splits list.splits)

theorem setZoomValue_stores_request_witness:
  "zoom (setZoomValue False 10 zoomCamera) = 10 \<and> zoom (setZoomValue True 0 zoomCamera) = 0
   \<and> setZoomValue True 10 initialCamera = initialCamera"
  using setZoomValue_stores_request [of zoomCamera False 10]
        setZoomValue_stores_request [of zoomCamera True 0]
        setZoomValue_stores_request [of initialCamera True 10]
  by (simp add: zoomCamera_def initialCamera_def)

text \<open>
  The claim as stated fails: with the capability \<open>{min: 1, max: 4, step: 0.5}\<close> and the
  zoom at 1, a request of 10 makes the observable zoom 10 (not 4, and not the 1 it
  was), and a request of 0 makes it 0.
\<close>

theorem setZoomValue_counterexample:
  "zoomMin (capabilities zoomCamera) = 1 \<and> zoomMax (capabilities zoomCamera) = 4
   \<and> zoom zoomCamera = 1
   \<and> zoom (setZoomValue True 10 zoomCamera) = 10 \<and> zoom (setZoomValue False 10 zoomCamera) = 10
   \<and> zoom (setZoomValue True 0 zoomCamera) = 0"
  by (simp add: zoomCamera_def initialCamera_def setZoomValue_def)

section \<open>handleSendMessage\<close>

lemma foldr_max_ge: "x \<in> set xs \<Longrightarrow> x \<le> foldr max xs (0::nat)"
  by (induction xs) (auto simp: max_def)

lemma newRef_fresh:
  assumes "msg \<in> set ms"
  shows "fst msg \<noteq> newRef ms"
proof -
  from assms have "fst msg \<in> set (map fst ms)" by simp
  then have "fst msg \<le> foldr max (map fst ms) 0" by (rule foldr_max_ge)
  then show ?thesis by (simp add: newRef_def)
qed

lemma filter_newRef: "filter (\<lambda>msg. fst msg \<noteq> newRef ms) ms = ms"
  using newRef_fresh [of _ ms] by (simp add: filter_id_conv)

text \<open>
  C8, as the code has it. The guard of the handler passes and the follow-up call fails
  with the error \<open>e\<close>. When \<open>e\<close> is not a \<open>ConfigError\<close>, the history after the handler is
  the history before it: the user's message is gone and every earlier message is as it
  was; an error text is set. When \<open>e\<close> is a \<open>ConfigError\<close>, the user's message stays at
  the end of the history and the configuration error is set.
\<close>

theorem handleSendMessage_failure:
  assumes "truthy (capturedImage a)" "trim userInput \<noteq> []" "\<not> isLoading a"
      and "getFollowUpAnswer cfg remote
             (case capturedImage a of None \<Rightarrow> None | Some img \<Rightarrow> dataUrlToBase64 img)
             (map snd (messages a)) userInput = Inl e"
  shows "((\<forall>m. e \<noteq> ConfigError m) \<longrightarrow>
            messages (handleSendMessage cfg remote userInput a) = messages a
            \<and> error (handleSendMessage cfg remote userInput a) \<noteq> None)
       \<and> (\<forall>m. e = ConfigError m \<longrightarrow>
            messages (handleSendMessage cfg remote userInput a) =
              messages a @ [(newRef (messages a), \<lparr>author = User, msgText = userInput\<rparr>)]
            \<and> configError (handleSendMessage cfg remote userInput a) = Some m)"
  using assms
  by (cases e) (simp_all add: handleSendMessage_def handleSendMessage_begin_def
      handleSendMessage_settle_def Let_def filter_newRef)

theorem handleSendMessage_failure_witness:
  "messages (handleSendMessage \<lparr>VITE_API_KEY = None, API_KEY = None, ai = True\<rparr>
       (\<lambda>img prompt. Rejected ''429 Too Many Requests'') ''What is it made of?'' chatApp)
     = [(1, \<lparr>author = AI, msgText = ''A mug.''\<rparr>)]
   \<and> error (handleSendMessage \<lparr>VITE_API_KEY = None, API_KEY = None, ai = True\<rparr>
       (\<lambda>img prompt. Rejected ''429 Too Many Requests'') ''What is it made of?'' chatApp) \<noteq> None"
proof -
  have call: "getFollowUpAnswer \<lparr>VITE_API_KEY = None, API_KEY = None, ai = True\<rparr>
       (\<lambda>img prompt. Rejected ''429 Too Many Requests'')
       (case capturedImage chatApp of None \<Rightarrow> None | Some img \<Rightarrow> dataUrlToBase64 img)
       (map snd (messages chatApp)) ''What is it made of?''
     = Inl (RateLimitError ''Request limit reached. This could be due to too many requests per minute or exceeding the daily quota. Please wait and try again later.'')"
    by (simp add: getFollowUpAnswer_def generateVisionContent_def getAi_def classify_def)
  have guard: "truthy (capturedImage chatApp)" "trim ''What is it made of?'' \<noteq> []"
    "\<not> isLoading chatApp"
    by (simp_all add: chatApp_def initialApp_def truthy_def trim_def isWhiteSpace_def)
  from handleSendMessage_failure [OF guard call] show ?thesis
    by (simp add: chatApp_def initialApp_def)
qed

text \<open>
  The claim as stated fails for a call that fails with a \<open>ConfigError\<close> (here: no API
  key is configured): the user's message stays in the history.
\<close>

theorem handleSendMessage_counterexample:
  "getFollowUpAnswer \<lparr>VITE_API_KEY = None, API_KEY = None, ai = False\<rparr>
       (\<lambda>img prompt. Rejected '''')
       (case capturedImage chatApp of None \<Rightarrow> None | Some img \<Rightarrow> dataUrlToBase64 img)
       (map snd (messages chatApp)) ''What is it made of?''
     = Inl (ConfigError apiKeyMessage)
   \<and> messages chatApp = [(1, \<lparr>author = AI, msgText = ''A mug.''\<rparr>)]
   \<and> messages (handleSendMessage \<lparr>VITE_API_KEY = None, API_KEY = None, ai = False\<rparr>
       (\<lambda>img prompt. Rejected '''') ''What is it made of?'' chatApp)
     = [(1, \<lparr>author = AI, msgText = ''A mug.''\<rparr>),
        (2, \<lparr>author = User, msgText = ''What is it made of?''\<rparr>)]"
  by (simp add: handleSendMessage_def handleSendMessage_begin_def handleSendMessage_settle_def
      getFollowUpAnswer_def generateVisionContent_def getAi_def getApiKey_def truthy_def
      chatApp_def initialApp_def newRef_def trim_def isWhiteSpace_def Let_def)

section \<open>The crop of a tap\<close>

text \<open>
  C2 at two taps inside the video element. A video of 640 by 480 shown at its own size
  and tapped at (600, 450): the crop starts at (525, 375) and is 150 wide and high, so
  it reaches beyond the working canvas of 640 by 480 on the right and below; only the
  left and upper sides are clamped. A video of 1280 by 720 shown at 640 by 360 and
  tapped at (600, 300): the crop starts at (1125, 525), in the coordinates of the video
  and not of the working canvas of 640 by 360, and lies outside of it.
\<close>

theorem cropOfClick_outside_canvas:
  "canvasSize 640 480 = (640, 480)
   \<and> cropOfClick \<lparr>clientX = 600, clientY = 450, rectLeft = 0, rectTop = 0,
                   rectWidth = 640, rectHeight = 480\<rparr> 640 480
       = \<lparr>sx = 525, sy = 375, sWidth = 150, sHeight = 150\<rparr>
   \<and> \<not> cropWithin (cropOfClick \<lparr>clientX = 600, clientY = 450, rectLeft = 0, rectTop = 0,
                   rectWidth = 640, rectHeight = 480\<rparr> 640 480) (canvasSize 640 480)
   \<and> canvasSize 1280 720 = (640, 360)
   \<and> cropOfClick \<lparr>clientX = 600, clientY = 300, rectLeft = 0, rectTop = 0,
                   rectWidth = 640, rectHeight = 360\<rparr> 1280 720
       = \<lparr>sx = 1125, sy = 525, sWidth = 150, sHeight = 150\<rparr>
   \<and> \<not> cropWithin (cropOfClick \<lparr>clientX = 600, clientY = 300, rectLeft = 0, rectTop = 0,
                   rectWidth = 640, rectHeight = 360\<rparr> 1280 720) (canvasSize 1280 720)"
  by (simp add: canvasSize_def cropOfClick_def cropWithin_def Let_def)

section \<open>The identification loop\<close>

subsection \<open>The invariants are kept\<close>

lemma one_outstanding: "length xs \<le> 1 \<Longrightarrow> xs = [] \<or> (\<exists>c. xs = [c])"
  by (cases xs) auto

lemma loopInvariant_initial: "loopInvariant initialController"
  by (simp add: loopInvariant_def loopCore_def loopClosure_def initialController_def)

lemma effectCleanup_core:
  assumes "loopCore s"
  shows "loopCore (effectCleanup s) \<and> \<not> loopActive (effectCleanup s)
         \<and> realtimeTimeoutRef (effectCleanup s) = None
         \<and> AmbientCall False \<notin> set (outstanding (effectCleanup s))"
  using assms by (auto simp: loopCore_def effectCleanup_def cancel_def split: call.splits)

lemma effectRun_invariant:
  assumes "loopCore s" "\<not> loopActive s" "realtimeTimeoutRef s = None"
      and "AmbientCall False \<notin> set (outstanding s)"
  shows "loopInvariant (effectRun s)"
proof (cases "\<not> isRealtimeMode s \<or> isFocusedIdentification s")
  case True
  with assms show ?thesis
    by (auto simp: loopInvariant_def loopCore_def loopClosure_def effectRun_def)
next
  case False
  show ?thesis
  proof (cases "videoWidth s = 0 \<or> isIdentifying s")
    case True
    with False assms show ?thesis
      by (auto simp: loopInvariant_def loopCore_def loopClosure_def effectRun_def
          identifyAndRepeat_def identifyFrame_def)
  next
    case idle: False
    with assms(1) have "outstanding s = []" by (simp add: loopCore_def)
    with idle False assms show ?thesis
      by (simp add: loopInvariant_def loopCore_def loopClosure_def effectRun_def
          identifyAndRepeat_def identifyFrame_def)
  qed
qed

lemma render_invariant:
  assumes "loopCore s"
      and "isRealtimeMode prev = isRealtimeMode s \<Longrightarrow>
           isFocusedIdentification prev = isFocusedIdentification s \<Longrightarrow> loopClosure s"
  shows "loopInvariant (render prev s)"
proof (cases "isRealtimeMode prev \<noteq> isRealtimeMode s
         \<or> isFocusedIdentification prev \<noteq> isFocusedIdentification s")
  case True
  then have "render prev s = effectRun (effectCleanup s)"
    by (simp add: render_def)
  moreover have "loopInvariant (effectRun (effectCleanup s))"
    using effectCleanup_core [OF assms(1)] by (intro effectRun_invariant) simp_all
  ultimately show ?thesis by simp
next
  case False
  then have "render prev s = s" by (auto simp: render_def)
  with False assms show ?thesis by (auto simp: loopInvariant_def)
qed

lemma toggle_invariant:
  assumes "loopInvariant s"
  shows "loopInvariant (render s (s\<lparr>isRealtimeMode := \<not> isRealtimeMode s\<rparr>))"
proof (rule render_invariant)
  from assms show "loopCore (s\<lparr>isRealtimeMode := \<not> isRealtimeMode s\<rparr>)"
    by (simp add: loopInvariant_def loopCore_def)
next
  assume "isRealtimeMode s = isRealtimeMode (s\<lparr>isRealtimeMode := \<not> isRealtimeMode s\<rparr>)"
  then have False by simp
  then show "loopClosure (s\<lparr>isRealtimeMode := \<not> isRealtimeMode s\<rparr>)" ..
qed

lemma handleVideoClick_invariant:
  assumes "loopInvariant s"
  shows "loopInvariant (handleVideoClick ev s)"
proof (cases "\<not> isRealtimeMode s \<or> isIdentifying s")
  case True
  with assms show ?thesis by (simp add: handleVideoClick_def)
next
  case False
  from assms have core: "loopCore s" and clos: "loopClosure s"
    by (simp_all add: loopInvariant_def)
  from False core have none: "outstanding s = []" by (simp add: loopCore_def)
  show ?thesis
  proof (cases "videoWidth s = 0")
    case True
    let ?s1 = "s\<lparr>isFocusedIdentification := True, focusedIdentTimeoutRef := Some (clock s + 5000)\<rparr>"
    from True False have "handleVideoClick ev s = render s ?s1"
      by (simp add: handleVideoClick_def identifyFrame_def Let_def)
    moreover have "loopInvariant (render s ?s1)"
    proof (rule render_invariant)
      from core show "loopCore ?s1" by (simp add: loopCore_def)
    next
      assume "isFocusedIdentification s = isFocusedIdentification ?s1"
      then have "isFocusedIdentification s" by simp
      with clos show "loopClosure ?s1" by (simp add: loopClosure_def)
    qed
    ultimately show ?thesis by simp
  next
    case ready: False
    let ?s1 = "s\<lparr>isFocusedIdentification := True, isIdentifying := True,
                 outstanding := outstanding s @ [FocusedCall (cropOfClick ev (videoWidth s) (videoHeight s))],
                 issued := Suc (issued s)\<rparr>"
    from ready False have "handleVideoClick ev s = render s ?s1"
      by (simp add: handleVideoClick_def identifyFrame_def Let_def)
    moreover have "loopInvariant (render s ?s1)"
    proof (rule render_invariant)
      from core none show "loopCore ?s1" by (simp add: loopCore_def)
    next
      assume "isFocusedIdentification s = isFocusedIdentification ?s1"
      then have "isFocusedIdentification s" by simp
      with clos have "\<not> loopActive s" by (auto simp: loopClosure_def)
      with core have "realtimeTimeoutRef s = None" by (auto simp: loopCore_def)
      with \<open>\<not> loopActive s\<close> show "loopClosure ?s1" by (simp add: loopClosure_def)
    qed
    ultimately show ?thesis by simp
  qed
qed

lemma identifyFrame_settle_fields:
  "outstanding (identifyFrame_settle r s) = outstanding s"
  "isIdentifying (identifyFrame_settle r s) = False"
  "realtimeTimeoutRef (identifyFrame_settle r s) = realtimeTimeoutRef s"
  "loopActive (identifyFrame_settle r s) = loopActive s"
  "loopIsIdentifying (identifyFrame_settle r s) = loopIsIdentifying s"
  "isFocusedIdentification (identifyFrame_settle r s) = isFocusedIdentification s"
  "clock (identifyFrame_settle r s) = clock s"
  "issued (identifyFrame_settle r s) = issued s"
  "focusedIdentTimeoutRef (identifyFrame_settle r s) = focusedIdentTimeoutRef s"
  "videoWidth (identifyFrame_settle r s) = videoWidth s"
  by (simp_all add: identifyFrame_settle_def split: sum.splits api_error.splits)

lemma settle_shape:
  assumes "loopCore s" "settle i r s = Some s'"
  shows "\<exists>c. outstanding s = [c] \<and> i = 0
           \<and> s' = render s (resume c (identifyFrame_settle r (s\<lparr>outstanding := []\<rparr>)))"
proof -
  from assms(1) have "length (outstanding s) \<le> 1" by (simp add: loopCore_def)
  then consider "outstanding s = []" | c where "outstanding s = [c]"
    using one_outstanding by blast
  then show ?thesis
  proof cases
    case 1
    with assms(2) show ?thesis by (simp add: settle_def)
  next
    case 2
    with assms(2) have i: "i = 0" by (cases i) (simp_all add: settle_def)
    with 2 assms(2) have "s' = render s (resume c (identifyFrame_settle r (s\<lparr>outstanding := []\<rparr>)))"
      by (simp add: settle_def)
    with 2 i show ?thesis by blast
  qed
qed

lemma resume_fields:
  "outstanding (resume c s) = outstanding s"
  "isIdentifying (resume c s) = isIdentifying s"
  "loopActive (resume c s) = loopActive s"
  "loopIsIdentifying (resume c s) = loopIsIdentifying s"
  "isFocusedIdentification (resume c s) = isFocusedIdentification s"
  "isRealtimeMode (resume c s) = isRealtimeMode s"
  "clock (resume c s) = clock s"
  "issued (resume c s) = issued s"
  "videoWidth (resume c s) = videoWidth s"
  by (simp_all add: resume_def split: call.splits)

lemma resume_timer:
  "realtimeTimeoutRef (resume c s) =
     (if c = AmbientCall False then Some (clock s + 5000) else realtimeTimeoutRef s)"
  by (cases c) (simp_all add: resume_def)

lemma settle_invariant:
  assumes "loopInvariant s" "settle i r s = Some s'"
  shows "loopInvariant s'"
proof -
  from assms(1) have core: "loopCore s" and clos: "loopClosure s"
    by (simp_all add: loopInvariant_def)
  from settle_shape [OF core assms(2)] obtain c where c: "outstanding s = [c]" and
    s': "s' = render s (resume c (identifyFrame_settle r (s\<lparr>outstanding := []\<rparr>)))"
    by blast
  define s1 where "s1 = identifyFrame_settle r (s\<lparr>outstanding := []\<rparr>)"
  define s2 where "s2 = resume c s1"
  have f1: "outstanding s1 = []" "\<not> isIdentifying s1" "loopActive s1 = loopActive s"
    "realtimeTimeoutRef s1 = realtimeTimeoutRef s" "loopIsIdentifying s1 = loopIsIdentifying s"
    "isFocusedIdentification s1 = isFocusedIdentification s"
    by (simp_all add: s1_def identifyFrame_settle_fields)
  have f2: "outstanding s2 = []" "\<not> isIdentifying s2" "loopActive s2 = loopActive s"
    "loopIsIdentifying s2 = loopIsIdentifying s"
    "isFocusedIdentification s2 = isFocusedIdentification s"
    "isRealtimeMode s2 = isRealtimeMode s1"
    by (simp_all add: s2_def resume_fields f1)
  have timer: "realtimeTimeoutRef s2 \<noteq> None \<longrightarrow> loopActive s"
  proof (cases "c = AmbientCall False")
    case True
    with core c show ?thesis by (simp add: loopCore_def)
  next
    case False
    with core show ?thesis by (simp add: s2_def resume_timer f1 loopCore_def)
  qed
  have "loopInvariant (render s s2)"
  proof (rule render_invariant)
    from timer show "loopCore s2"
      by (simp add: loopCore_def f2)
  next
    assume "isRealtimeMode s = isRealtimeMode s2"
      and "isFocusedIdentification s = isFocusedIdentification s2"
    then have "isRealtimeMode s2 = isRealtimeMode s" by simp
    with clos show "loopClosure s2"
      by (simp add: loopClosure_def f2)
  qed
  with s' show ?thesis by (simp add: s2_def s1_def)
qed


lemma realtimeTimeout_invariant:
  assumes "loopInvariant s" "step s RealtimeTimeout = Some s'"
  shows "loopInvariant s'"
proof -
  from assms(2) have due: "realtimeTimeoutRef s \<noteq> None"
    and s': "s' = identifyAndRepeat (s\<lparr>realtimeTimeoutRef := None\<rparr>)"
    by (auto simp: due_def split: if_splits option.splits)
  from assms(1) due have active: "loopActive s" "isRealtimeMode s" "\<not> isFocusedIdentification s"
    and closure: "isIdentifying s \<longrightarrow> loopIsIdentifying s"
    and noAmbient: "AmbientCall False \<notin> set (outstanding s)"
    and one: "length (outstanding s) \<le> 1" "isIdentifying s \<longleftrightarrow> outstanding s \<noteq> []"
    by (auto simp: loopInvariant_def loopCore_def loopClosure_def)
  show ?thesis
  proof (cases "videoWidth s = 0 \<or> loopIsIdentifying s")
    case True
    with active have "s' = s\<lparr>realtimeTimeoutRef := Some (clock s + 5000)\<rparr>"
      by (simp add: s' identifyAndRepeat_def identifyFrame_def)
    with active closure noAmbient one show ?thesis
      by (simp add: loopInvariant_def loopCore_def loopClosure_def)
  next
    case False
    with closure one have none: "outstanding s = []" "\<not> isIdentifying s" by auto
    from False have "s' = s\<lparr>realtimeTimeoutRef := None, isIdentifying := True,
        outstanding := outstanding s @ [AmbientCall False], issued := Suc (issued s)\<rparr>"
      by (simp add: s' identifyAndRepeat_def identifyFrame_def)
    with active none show ?thesis
      by (simp add: loopInvariant_def loopCore_def loopClosure_def)
  qed
qed

lemma focusedIdentTimeout_invariant:
  assumes "loopInvariant s"
  shows "loopInvariant (render s (s\<lparr>isFocusedIdentification := False, focusedIdentTimeoutRef := None\<rparr>))"
proof (rule render_invariant)
  from assms show "loopCore (s\<lparr>isFocusedIdentification := False, focusedIdentTimeoutRef := None\<rparr>)"
    by (simp add: loopInvariant_def loopCore_def)
next
  assume "isFocusedIdentification s =
    isFocusedIdentification (s\<lparr>isFocusedIdentification := False, focusedIdentTimeoutRef := None\<rparr>)"
  then have "\<not> isFocusedIdentification s" by simp
  with assms show "loopClosure (s\<lparr>isFocusedIdentification := False, focusedIdentTimeoutRef := None\<rparr>)"
    by (simp add: loopInvariant_def loopClosure_def)
qed

lemma step_invariant:
  assumes "loopInvariant s" "step s e = Some s'"
  shows "loopInvariant s'"
proof (cases e)
  case ToggleRealtime
  with assms(2) have "s' = render s (s\<lparr>isRealtimeMode := \<not> isRealtimeMode s\<rparr>)" by simp
  with toggle_invariant [OF assms(1)] show ?thesis by simp
next
  case (VideoClick ev)
  with assms(2) have "s' = handleVideoClick ev s" by simp
  with handleVideoClick_invariant [OF assms(1)] show ?thesis by simp
next
  case (Settle i r)
  with assms(2) have "settle i r s = Some s'" by simp
  with assms(1) show ?thesis by (rule settle_invariant)
next
  case RealtimeTimeout
  with assms show ?thesis using realtimeTimeout_invariant by blast
next
  case FocusedIdentTimeout
  with assms(2) have "s' = render s (s\<lparr>isFocusedIdentification := False, focusedIdentTimeoutRef := None\<rparr>)"
    by (simp split: if_splits)
  with focusedIdentTimeout_invariant [OF assms(1)] show ?thesis by simp
next
  case RateLimitTimeout
  with assms(2) have "s' = s\<lparr>rateLimitError := None, rateLimitTimeoutRef := None\<rparr>"
    by (simp split: if_splits)
  with assms(1) show ?thesis
    by (simp add: loopInvariant_def loopCore_def loopClosure_def)
next
  case (Elapse d)
  with assms(2) have "s' = s\<lparr>clock := clock s + d\<rparr>"
    by (simp split: if_splits)
  with assms(1) show ?thesis
    by (simp add: loopInvariant_def loopCore_def loopClosure_def)
next
  case (VideoResize w h)
  with assms(2) have "s' = s\<lparr>videoWidth := w, videoHeight := h\<rparr>" by simp
  with assms(1) show ?thesis
    by (simp add: loopInvariant_def loopCore_def loopClosure_def)
qed

lemma run_invariant:
  "loopInvariant s \<Longrightarrow> run s evs = Some s' \<Longrightarrow> loopInvariant s'"
proof (induction evs arbitrary: s)
  case Nil
  then show ?case by simp
next
  case (Cons e evs)
  from Cons.prems(2) obtain s1 where s1: "step s e = Some s1" "run s1 evs = Some s'"
    by (auto split: option.splits)
  from step_invariant [OF Cons.prems(1) s1(1)] s1(2) show ?case
    by (rule Cons.IH)
qed

lemma cancel_focused [simp]:
  "(case cancel c of FocusedCall r \<Rightarrow> True | AmbientCall b \<Rightarrow> False)
     = (case c of FocusedCall r \<Rightarrow> True | AmbientCall b \<Rightarrow> False)"
  by (cases c) (simp_all add: cancel_def)

lemma effectCleanup_fields:
  "focusedIdentTimeoutRef (effectCleanup s) = focusedIdentTimeoutRef s"
  "clock (effectCleanup s) = clock s"
  "isFocusedIdentification (effectCleanup s) = isFocusedIdentification s"
  "isRealtimeMode (effectCleanup s) = isRealtimeMode s"
  "isIdentifying (effectCleanup s) = isIdentifying s"
  "issued (effectCleanup s) = issued s"
  "app (effectCleanup s) = app s"
  "rateLimitError (effectCleanup s) = rateLimitError s"
  "rateLimitTimeoutRef (effectCleanup s) = rateLimitTimeoutRef s"
  "videoWidth (effectCleanup s) = videoWidth s"
  "focusedPending (effectCleanup s) = focusedPending s"
  by (simp_all add: effectCleanup_def focusedPending_def)

lemma identifyAndRepeat_fields:
  "focusedIdentTimeoutRef (identifyAndRepeat s) = focusedIdentTimeoutRef s"
  "clock (identifyAndRepeat s) = clock s"
  "isFocusedIdentification (identifyAndRepeat s) = isFocusedIdentification s"
  "isRealtimeMode (identifyAndRepeat s) = isRealtimeMode s"
  "app (identifyAndRepeat s) = app s"
  "rateLimitError (identifyAndRepeat s) = rateLimitError s"
  "rateLimitTimeoutRef (identifyAndRepeat s) = rateLimitTimeoutRef s"
  "focusedPending (identifyAndRepeat s) = focusedPending s"
  by (simp_all add: identifyAndRepeat_def identifyFrame_def focusedPending_def)

lemma effectRun_fields:
  "focusedIdentTimeoutRef (effectRun s) = focusedIdentTimeoutRef s"
  "clock (effectRun s) = clock s"
  "isFocusedIdentification (effectRun s) = isFocusedIdentification s"
  "isRealtimeMode (effectRun s) = isRealtimeMode s"
  "app (effectRun s) = app s"
  "rateLimitError (effectRun s) = rateLimitError s"
  "rateLimitTimeoutRef (effectRun s) = rateLimitTimeoutRef s"
  "focusedPending (effectRun s) = focusedPending s"
  by (simp_all add: effectRun_def identifyAndRepeat_fields) (simp_all add: focusedPending_def)

lemma render_fields:
  "focusedIdentTimeoutRef (render b s) = focusedIdentTimeoutRef s"
  "clock (render b s) = clock s"
  "isFocusedIdentification (render b s) = isFocusedIdentification s"
  "isRealtimeMode (render b s) = isRealtimeMode s"
  "app (render b s) = app s"
  "rateLimitError (render b s) = rateLimitError s"
  "rateLimitTimeoutRef (render b s) = rateLimitTimeoutRef s"
  "focusedPending (render b s) = focusedPending s"
  by (simp_all add: render_def effectRun_fields effectCleanup_fields)

lemma effectRun_off:
  assumes "\<not> isRealtimeMode s"
  shows "outstanding (effectRun s) = outstanding s" "isIdentifying (effectRun s) = isIdentifying s"
    "loopActive (effectRun s) = loopActive s" "realtimeTimeoutRef (effectRun s) = realtimeTimeoutRef s"
    "issued (effectRun s) = issued s"
  using assms by (simp_all add: effectRun_def)

lemma render_atRest:
  assumes "\<not> isRealtimeMode s" "outstanding s = []" "\<not> isIdentifying s"
      and "realtimeTimeoutRef s \<noteq> None \<longrightarrow> loopActive s"
      and "isRealtimeMode prev = isRealtimeMode s \<Longrightarrow>
           isFocusedIdentification prev = isFocusedIdentification s \<Longrightarrow> \<not> loopActive s"
  shows "atRest (render prev s) \<and> issued (render prev s) = issued s"
proof (cases "isRealtimeMode prev \<noteq> isRealtimeMode s
         \<or> isFocusedIdentification prev \<noteq> isFocusedIdentification s")
  case True
  then have r: "render prev s = effectRun (effectCleanup s)" by (simp add: render_def)
  have off: "\<not> isRealtimeMode (effectCleanup s)"
    using assms(1) by (simp add: effectCleanup_fields)
  have c: "outstanding (effectCleanup s) = []" "\<not> loopActive (effectCleanup s)"
    "realtimeTimeoutRef (effectCleanup s) = None" "\<not> isIdentifying (effectCleanup s)"
    "issued (effectCleanup s) = issued s"
    using assms(2,3,4) by (auto simp: effectCleanup_def)
  show ?thesis
    unfolding r atRest_def using off c by (simp add: effectRun_off effectRun_fields)
next
  case False
  then have "render prev s = s" by (auto simp: render_def)
  with False assms show ?thesis by (auto simp: atRest_def)
qed

lemma atRest_step:
  assumes "atRest s" "e \<noteq> ToggleRealtime" "step s e = Some s'"
  shows "atRest s' \<and> issued s' = issued s \<and> app s' = app s"
proof (cases e)
  case ToggleRealtime
  with assms(2) show ?thesis by simp
next
  case (VideoClick ev)
  from assms(1) have "handleVideoClick ev s = s"
    by (simp add: handleVideoClick_def atRest_def)
  with VideoClick assms(3) have "s' = s" by simp
  with assms(1) show ?thesis by simp
next
  case (Settle i r)
  from assms(1) have "settle i r s = None"
    by (simp add: settle_def atRest_def)
  with Settle assms(3) show ?thesis by simp
next
  case RealtimeTimeout
  from assms(1) have "step s RealtimeTimeout = None"
    by (simp add: atRest_def due_def)
  with RealtimeTimeout assms(3) show ?thesis by simp
next
  case FocusedIdentTimeout
  let ?s1 = "s\<lparr>isFocusedIdentification := False, focusedIdentTimeoutRef := None\<rparr>"
  from FocusedIdentTimeout assms(3) have s': "s' = render s ?s1"
    by (simp split: if_splits)
  have "atRest (render s ?s1) \<and> issued (render s ?s1) = issued ?s1"
  proof (rule render_atRest)
    from assms(1) show "\<not> isRealtimeMode ?s1" "outstanding ?s1 = []" "\<not> isIdentifying ?s1"
      "realtimeTimeoutRef ?s1 \<noteq> None \<longrightarrow> loopActive ?s1" "\<not> loopActive ?s1"
      by (simp_all add: atRest_def)
  qed
  then show ?thesis by (simp add: s' render_fields)
next
  case RateLimitTimeout
  with assms(3) have "s' = s\<lparr>rateLimitError := None, rateLimitTimeoutRef := None\<rparr>"
    by (simp split: if_splits)
  with assms(1) show ?thesis by (simp add: atRest_def)
next
  case (Elapse d)
  with assms(3) have "s' = s\<lparr>clock := clock s + d\<rparr>"
    by (simp split: if_splits)
  with assms(1) show ?thesis by (simp add: atRest_def)
next
  case (VideoResize w h)
  with assms(3) have "s' = s\<lparr>videoWidth := w, videoHeight := h\<rparr>" by simp
  with assms(1) show ?thesis by (simp add: atRest_def)
qed

lemma atRest_run:
  "atRest s \<Longrightarrow> ToggleRealtime \<notin> set evs \<Longrightarrow> run s evs = Some s' \<Longrightarrow>
     atRest s' \<and> issued s' = issued s \<and> app s' = app s"
proof (induction evs arbitrary: s)
  case Nil
  then show ?case by simp
next
  case (Cons e evs)
  from Cons.prems(3) obtain s1 where s1: "step s e = Some s1" "run s1 evs = Some s'"
    by (auto split: option.splits)
  from Cons.prems(2) have e: "e \<noteq> ToggleRealtime" and evs: "ToggleRealtime \<notin> set evs" by auto
  from atRest_step [OF Cons.prems(1) e s1(1)]
  have 1: "atRest s1" "issued s1 = issued s" "app s1 = app s" by simp_all
  from Cons.IH [OF 1(1) evs s1(2)] 1 show ?case by simp
qed

text \<open>A call that settles with a ConfigError or a RateLimitError leaves the component at rest.\<close>

lemma settle_error_atRest:
  assumes "loopInvariant s" "settle i (Inl e) s = Some s'" "\<forall>m. e \<noteq> Error m"
  shows "atRest s' \<and> issued s' = issued s \<and> clock s' = clock s"
proof -
  from assms(1) have core: "loopCore s" and clos: "loopClosure s"
    by (simp_all add: loopInvariant_def)
  from settle_shape [OF core assms(2)] obtain c where c: "outstanding s = [c]" and
    s': "s' = render s (resume c (identifyFrame_settle (Inl e) (s\<lparr>outstanding := []\<rparr>)))"
    by blast
  define s1 where "s1 = identifyFrame_settle (Inl e) (s\<lparr>outstanding := []\<rparr>)"
  define s2 where "s2 = resume c s1"
  have off: "\<not> isRealtimeMode s1"
    using assms(3) by (cases e) (simp_all add: s1_def identifyFrame_settle_def)
  have f1: "outstanding s1 = []" "\<not> isIdentifying s1" "loopActive s1 = loopActive s"
    "realtimeTimeoutRef s1 = realtimeTimeoutRef s" "issued s1 = issued s" "clock s1 = clock s"
    "isFocusedIdentification s1 = isFocusedIdentification s"
    by (simp_all add: s1_def identifyFrame_settle_fields)
  have f2: "outstanding s2 = []" "\<not> isIdentifying s2" "loopActive s2 = loopActive s"
    "\<not> isRealtimeMode s2" "issued s2 = issued s" "clock s2 = clock s"
    "isFocusedIdentification s2 = isFocusedIdentification s"
    by (simp_all add: s2_def resume_fields f1 off)
  have timer: "realtimeTimeoutRef s2 \<noteq> None \<longrightarrow> loopActive s"
  proof (cases "c = AmbientCall False")
    case True
    with core c show ?thesis by (simp add: loopCore_def)
  next
    case False
    with core show ?thesis by (simp add: s2_def resume_timer f1 loopCore_def)
  qed
  have "atRest (render s s2) \<and> issued (render s s2) = issued s2"
  proof (rule render_atRest)
    show "\<not> isRealtimeMode s2" "outstanding s2 = []" "\<not> isIdentifying s2" by (simp_all add: f2)
    from timer show "realtimeTimeoutRef s2 \<noteq> None \<longrightarrow> loopActive s2" by (simp add: f2)
  next
    assume "isRealtimeMode s = isRealtimeMode s2"
    then have "\<not> isRealtimeMode s" by (simp add: f2)
    with clos show "\<not> loopActive s2" by (auto simp: f2 loopClosure_def)
  qed
  then show ?thesis
    by (simp add: s' s2_def [symmetric] s1_def [symmetric] f2 render_fields)
qed

lemma focusInvariant_cong:
  assumes "focusedIdentTimeoutRef s' = focusedIdentTimeoutRef s" "clock s' = clock s"
      and "isFocusedIdentification s' = isFocusedIdentification s"
      and "focusedPending s' = focusedPending s"
  shows "focusInvariant s' = focusInvariant s"
  by (simp add: focusInvariant_def assms cong: option.case_cong)

lemma focusInvariant_render: "focusInvariant (render prev s) = focusInvariant s"
  by (rule focusInvariant_cong) (simp_all add: render_fields)

lemma focusInvariant_initial: "focusInvariant initialController"
  by (simp add: focusInvariant_def initialController_def)

lemma handleVideoClick_focus:
  assumes "focusInvariant s"
  shows "focusInvariant (handleVideoClick ev s)"
proof (cases "\<not> isRealtimeMode s \<or> isIdentifying s")
  case True
  with assms show ?thesis by (simp add: handleVideoClick_def)
next
  case False
  show ?thesis
  proof (cases "videoWidth s = 0")
    case True
    let ?s1 = "s\<lparr>isFocusedIdentification := True, focusedIdentTimeoutRef := Some (clock s + 5000)\<rparr>"
    from True False have "handleVideoClick ev s = render s ?s1"
      by (simp add: handleVideoClick_def identifyFrame_def Let_def)
    moreover have "focusInvariant ?s1" by (simp add: focusInvariant_def)
    ultimately show ?thesis by (simp add: focusInvariant_render)
  next
    case ready: False
    let ?s1 = "s\<lparr>isFocusedIdentification := True, isIdentifying := True,
                 outstanding := outstanding s @ [FocusedCall (cropOfClick ev (videoWidth s) (videoHeight s))],
                 issued := Suc (issued s)\<rparr>"
    from ready False have "handleVideoClick ev s = render s ?s1"
      by (simp add: handleVideoClick_def identifyFrame_def Let_def)
    moreover from assms have "focusInvariant ?s1"
      by (simp add: focusInvariant_def focusedPending_def cong: option.case_cong)
    ultimately show ?thesis by (simp add: focusInvariant_render)
  qed
qed

lemma resume_focus:
  assumes "focusInvariant s" "outstanding s = [c]"
      and "focusedIdentTimeoutRef s1 = focusedIdentTimeoutRef s" "clock s1 = clock s"
      and "isFocusedIdentification s1 = isFocusedIdentification s" "outstanding s1 = []"
  shows "focusInvariant (resume c s1)"
proof (cases c)
  case (AmbientCall b)
  with assms(1,2) have "isFocusedIdentification s \<longrightarrow> focusedIdentTimeoutRef s \<noteq> None"
    by (simp add: focusInvariant_def focusedPending_def)
  with assms(1) AmbientCall show ?thesis
    by (simp add: focusInvariant_def resume_def assms(3,4,5) cong: option.case_cong)
next
  case (FocusedCall r)
  then show ?thesis
    by (simp add: focusInvariant_def resume_def assms(4))
qed

lemma settle_focus:
  assumes "loopInvariant s" "focusInvariant s" "settle i r s = Some s'"
  shows "focusInvariant s'"
proof -
  from assms(1) have core: "loopCore s" by (simp add: loopInvariant_def)
  from settle_shape [OF core assms(3)] obtain c where c: "outstanding s = [c]" and
    s': "s' = render s (resume c (identifyFrame_settle r (s\<lparr>outstanding := []\<rparr>)))"
    by blast
  have "focusInvariant (resume c (identifyFrame_settle r (s\<lparr>outstanding := []\<rparr>)))"
    using assms(2) c by (rule resume_focus) (simp_all add: identifyFrame_settle_fields)
  then show ?thesis by (simp add: s' focusInvariant_render)
qed

lemma step_focus:
  assumes "loopInvariant s" "focusInvariant s" "step s e = Some s'"
  shows "focusInvariant s'"
proof (cases e)
  case ToggleRealtime
  with assms(3) have "s' = render s (s\<lparr>isRealtimeMode := \<not> isRealtimeMode s\<rparr>)" by simp
  moreover from assms(2) have "focusInvariant (s\<lparr>isRealtimeMode := \<not> isRealtimeMode s\<rparr>)"
    by (simp add: focusInvariant_def focusedPending_def cong: option.case_cong)
  ultimately show ?thesis by (simp add: focusInvariant_render)
next
  case (VideoClick ev)
  with assms(3) have "s' = handleVideoClick ev s" by simp
  with handleVideoClick_focus [OF assms(2)] show ?thesis by simp
next
  case (Settle i r)
  with assms(3) have "settle i r s = Some s'" by simp
  with assms(1,2) show ?thesis by (rule settle_focus)
next
  case RealtimeTimeout
  with assms(3) have s': "s' = identifyAndRepeat (s\<lparr>realtimeTimeoutRef := None\<rparr>)"
    by (simp split: if_splits)
  have "focusedPending (s\<lparr>realtimeTimeoutRef := None\<rparr>) = focusedPending s"
    by (simp add: focusedPending_def)
  then have "focusInvariant s' = focusInvariant s"
    by (intro focusInvariant_cong) (simp_all add: s' identifyAndRepeat_fields)
  with assms(2) show ?thesis by simp
next
  case FocusedIdentTimeout
  with assms(3) have "s' = render s (s\<lparr>isFocusedIdentification := False, focusedIdentTimeoutRef := None\<rparr>)"
    by (simp split: if_splits)
  moreover have "focusInvariant (s\<lparr>isFocusedIdentification := False, focusedIdentTimeoutRef := None\<rparr>)"
    by (simp add: focusInvariant_def)
  ultimately show ?thesis by (simp add: focusInvariant_render)
next
  case RateLimitTimeout
  with assms(3) have "s' = s\<lparr>rateLimitError := None, rateLimitTimeoutRef := None\<rparr>"
    by (simp split: if_splits)
  with assms(2) show ?thesis
    by (simp add: focusInvariant_def focusedPending_def cong: option.case_cong)
next
  case (Elapse d)
  with assms(3) have s': "s' = s\<lparr>clock := clock s + d\<rparr>"
    and nb: "notBefore (focusedIdentTimeoutRef s) (clock s + d)"
    by (simp_all split: if_splits)
  from assms(2) nb show ?thesis
    by (auto simp: s' focusInvariant_def focusedPending_def notBefore_def split: option.splits)
next
  case (VideoResize w h)
  with assms(3) have "s' = s\<lparr>videoWidth := w, videoHeight := h\<rparr>" by simp
  with assms(2) show ?thesis
    by (simp add: focusInvariant_def focusedPending_def cong: option.case_cong)
qed

lemma run_focus:
  "loopInvariant s \<Longrightarrow> focusInvariant s \<Longrightarrow> run s evs = Some s' \<Longrightarrow> focusInvariant s'"
proof (induction evs arbitrary: s)
  case Nil
  then show ?case by simp
next
  case (Cons e evs)
  from Cons.prems(3) obtain s1 where s1: "step s e = Some s1" "run s1 evs = Some s'"
    by (auto split: option.splits)
  from step_invariant [OF Cons.prems(1) s1(1)] step_focus [OF Cons.prems(1,2) s1(1)] s1(2)
  show ?case by (rule Cons.IH)
qed

subsection \<open>One call at a time\<close>

lemmas controller_defs = identifyFrame_def identifyFrame_settle_def identifyAndRepeat_def cancel_def
  effectCleanup_def effectRun_def render_def handleVideoClick_def settle_def resume_def due_def
  notBefore_def handleConfigError_def initialController_def initialApp_def




subsection \<open>After a rate limit error\<close>

lemma identifyFrame_settle_config:
  "app (identifyFrame_settle (Inl (ConfigError m)) s) = handleConfigError m (app s)"
  by (simp add: identifyFrame_settle_def)

lemma identifyFrame_settle_rateLimit:
  "rateLimitError (identifyFrame_settle (Inl (RateLimitError m)) s) = Some m"
  "rateLimitTimeoutRef (identifyFrame_settle (Inl (RateLimitError m)) s) = Some (clock s + 5000)"
  by (simp_all add: identifyFrame_settle_def)

lemma resume_outside:
  "app (resume c s) = app s"
  "rateLimitError (resume c s) = rateLimitError s"
  "rateLimitTimeoutRef (resume c s) = rateLimitTimeoutRef s"
  by (simp_all add: resume_def split: call.splits)

lemma settle_config_app:
  assumes "loopInvariant s" "settle i (Inl (ConfigError m)) s = Some s'"
  shows "configError (app s') = Some m"
proof -
  from assms(1) have core: "loopCore s" by (simp add: loopInvariant_def)
  from settle_shape [OF core assms(2)] obtain c where
    s': "s' = render s (resume c (identifyFrame_settle (Inl (ConfigError m)) (s\<lparr>outstanding := []\<rparr>)))"
    by blast
  show ?thesis
    by (simp add: s' render_fields resume_outside identifyFrame_settle_config handleConfigError_def)
qed

lemma settle_rateLimit_cooling:
  assumes "loopInvariant s" "focusInvariant s" "settle i (Inl (RateLimitError m)) s = Some s'"
  shows "coolingDown (clock s + 5000) m s'"
proof -
  from assms(1) have core: "loopCore s" by (simp add: loopInvariant_def)
  from settle_shape [OF core assms(3)] obtain c where
    s': "s' = render s (resume c (identifyFrame_settle (Inl (RateLimitError m)) (s\<lparr>outstanding := []\<rparr>)))"
    by blast
  from settle_error_atRest [OF assms(1,3)]
  have rest: "atRest s'" and clock: "clock s' = clock s" by simp_all
  have limit: "rateLimitTimeoutRef s' = Some (clock s + 5000)" "rateLimitError s' = Some m"
    by (simp_all add: s' render_fields resume_outside identifyFrame_settle_rateLimit)
  from settle_focus [OF assms] have "focusInvariant s'" .
  moreover from rest have "\<not> focusedPending s'" by (simp add: atRest_def focusedPending_def)
  ultimately have focus: "case focusedIdentTimeoutRef s' of
      None \<Rightarrow> \<not> isFocusedIdentification s'
    | Some t \<Rightarrow> clock s' \<le> t \<and> t \<le> clock s + 5000"
    by (auto simp: focusInvariant_def clock split: option.splits)
  from rest limit clock focus show ?thesis
    by (simp add: coolingDown_def)
qed

lemma coolingDown_step:
  assumes "coolingDown T m s" "e \<noteq> ToggleRealtime" "step s e = Some s'"
  shows "coolingDown T m s'"
proof -
  from assms(1) have rest: "atRest s"
    and limit: "rateLimitTimeoutRef s = Some T \<and> rateLimitError s = Some m \<and> clock s \<le> T
          \<or> rateLimitTimeoutRef s = None \<and> rateLimitError s = None \<and> T \<le> clock s"
    and focus: "case focusedIdentTimeoutRef s of
          None \<Rightarrow> \<not> isFocusedIdentification s
        | Some t \<Rightarrow> clock s \<le> t \<and> t \<le> T"
    by (simp_all add: coolingDown_def)
  from atRest_step [OF rest assms(2,3)] have rest': "atRest s'" by simp
  show ?thesis
  proof (cases e)
    case ToggleRealtime
    with assms(2) show ?thesis by simp
  next
    case (VideoClick ev)
    from rest have "handleVideoClick ev s = s"
      by (simp add: handleVideoClick_def atRest_def)
    with VideoClick assms(3) have "s' = s" by simp
    with assms(1) show ?thesis by simp
  next
    case (Settle i r)
    from rest have "settle i r s = None"
      by (simp add: settle_def atRest_def)
    with Settle assms(3) show ?thesis by simp
  next
    case RealtimeTimeout
    from rest have "step s RealtimeTimeout = None"
      by (simp add: atRest_def due_def)
    with RealtimeTimeout assms(3) show ?thesis by simp
  next
    case FocusedIdentTimeout
    with assms(3) have s': "s' = render s (s\<lparr>isFocusedIdentification := False, focusedIdentTimeoutRef := None\<rparr>)"
      by (simp split: if_splits)
    from rest' limit show ?thesis
      by (simp add: coolingDown_def s' render_fields)
  next
    case RateLimitTimeout
    with assms(3) have s': "s' = s\<lparr>rateLimitError := None, rateLimitTimeoutRef := None\<rparr>"
      and due: "due (rateLimitTimeoutRef s) (clock s)"
      by (simp_all split: if_splits)
    from due limit have "T \<le> clock s" by (auto simp: due_def)
    with rest' focus show ?thesis
      by (simp add: coolingDown_def s' cong: option.case_cong)
  next
    case (Elapse d)
    with assms(3) have s': "s' = s\<lparr>clock := clock s + d\<rparr>"
      and nb: "notBefore (rateLimitTimeoutRef s) (clock s + d)"
        "notBefore (focusedIdentTimeoutRef s) (clock s + d)"
      by (simp_all split: if_splits)
    from rest' limit focus nb show ?thesis
      by (auto simp: coolingDown_def s' notBefore_def split: option.splits)
  next
    case (VideoResize w h)
    with assms(3) have s': "s' = s\<lparr>videoWidth := w, videoHeight := h\<rparr>" by simp
    from rest' limit focus show ?thesis
      by (simp add: coolingDown_def s' cong: option.case_cong)
  qed
qed

lemma coolingDown_run:
  "coolingDown T m s \<Longrightarrow> ToggleRealtime \<notin> set evs \<Longrightarrow> run s evs = Some s' \<Longrightarrow>
     coolingDown T m s'"
proof (induction evs arbitrary: s)
  case Nil
  then show ?case by simp
next
  case (Cons e evs)
  from Cons.prems(3) obtain s1 where s1: "step s e = Some s1" "run s1 evs = Some s'"
    by (auto split: option.splits)
  from Cons.prems(2) have e: "e \<noteq> ToggleRealtime" and evs: "ToggleRealtime \<notin> set evs" by auto
  from coolingDown_step [OF Cons.prems(1) e s1(1)] evs s1(2) show ?case
    by (rule Cons.IH)
qed

text \<open>
  C4. A call settles with a \<open>RateLimitError\<close> with the message \<open>m\<close>, in any state \<open>s0\<close>
  the component can reach; \<open>s1\<close> is the state after it. Then the real-time mode is off,
  the message is shown and the timer that clears it is set to 5000 ms later. In every
  state \<open>s2\<close> reached from \<open>s1\<close> without the user toggling the real-time mode, the mode
  is still off, no call is outstanding or has been issued since, and the timer of the
  loop is not pending; before the 5000 ms have passed the message is still shown, and
  after them it is gone, with no focused display and no timer left.
\<close>

theorem rateLimit_cooldown:
  assumes "run initialController evs1 = Some s0"
      and "step s0 (Settle i (Inl (RateLimitError m))) = Some s1"
      and "run s1 evs2 = Some s2"
      and "ToggleRealtime \<notin> set evs2"
  shows "\<not> isRealtimeMode s1 \<and> rateLimitError s1 = Some m
       \<and> rateLimitTimeoutRef s1 = Some (clock s1 + 5000)
       \<and> \<not> isRealtimeMode s2 \<and> \<not> isIdentifying s2 \<and> outstanding s2 = []
       \<and> realtimeTimeoutRef s2 = None \<and> issued s2 = issued s1
       \<and> (clock s2 < clock s1 + 5000 \<longrightarrow> rateLimitError s2 = Some m)
       \<and> (clock s1 + 5000 < clock s2 \<longrightarrow>
            rateLimitError s2 = None \<and> rateLimitTimeoutRef s2 = None
            \<and> \<not> isFocusedIdentification s2 \<and> focusedIdentTimeoutRef s2 = None)"
proof -
  from run_invariant [OF loopInvariant_initial assms(1)] have inv: "loopInvariant s0" .
  from run_focus [OF loopInvariant_initial focusInvariant_initial assms(1)]
  have focus: "focusInvariant s0" .
  from assms(2) have settle: "settle i (Inl (RateLimitError m)) s0 = Some s1" by simp
  from settle_error_atRest [OF inv settle] have clock: "clock s1 = clock s0" by simp
  from settle_rateLimit_cooling [OF inv focus settle]
  have c1: "coolingDown (clock s1 + 5000) m s1" by (simp add: clock)
  from coolingDown_run [OF c1 assms(4,3)] have c2: "coolingDown (clock s1 + 5000) m s2" .
  from c1 have rest1: "atRest s1" by (simp add: coolingDown_def)
  from atRest_run [OF rest1 assms(4,3)] have issued: "issued s2 = issued s1" by simp
  from c1 have 1: "\<not> isRealtimeMode s1 \<and> rateLimitError s1 = Some m
       \<and> rateLimitTimeoutRef s1 = Some (clock s1 + 5000)"
    by (auto simp: coolingDown_def atRest_def)
  from c2 have 2: "\<not> isRealtimeMode s2 \<and> \<not> isIdentifying s2 \<and> outstanding s2 = []
       \<and> realtimeTimeoutRef s2 = None"
    by (simp add: coolingDown_def atRest_def)
  from c2 have 3: "clock s2 < clock s1 + 5000 \<longrightarrow> rateLimitError s2 = Some m"
    by (auto simp: coolingDown_def)
  from c2 have 4: "clock s1 + 5000 < clock s2 \<longrightarrow>
            rateLimitError s2 = None \<and> rateLimitTimeoutRef s2 = None
            \<and> \<not> isFocusedIdentification s2 \<and> focusedIdentTimeoutRef s2 = None"
    by (auto simp: coolingDown_def split: option.splits)
  from 1 2 3 4 issued show ?thesis by blast
qed

theorem rateLimit_cooldown_witness:
  "\<exists>s0 s1 s2.
     run initialController
       [VideoResize 640 480, ToggleRealtime, Settle 0 (Inr (Some ''mug'')), Elapse 2000,
        VideoClick tap0, Elapse 1000] = Some s0
     \<and> step s0 (Settle 0 (Inl (RateLimitError ''limit''))) = Some s1
     \<and> run s1 [Elapse 2000, VideoClick tap0, Elapse 3000, FocusedIdentTimeout, RateLimitTimeout,
                Elapse 9000] = Some s2
     \<and> clock s1 = 3000 \<and> rateLimitError s1 = Some ''limit'' \<and> clock s2 = 17000
     \<and> rateLimitError s2 = None \<and> \<not> isRealtimeMode s2 \<and> \<not> isFocusedIdentification s2
     \<and> issued s2 = issued s1"
proof -
  define s0 where "s0 = initialController\<lparr>isRealtimeMode := True, isIdentifying := True,
       identifiedObject := Some ''mug'', isFocusedIdentification := True,
       outstanding := [FocusedCall \<lparr>sx = 0, sy = 0, sWidth = 150, sHeight = 150\<rparr>],
       issued := 2, clock := 3000, videoWidth := 640, videoHeight := 480\<rparr>"
  define s1 where "s1 = s0\<lparr>isRealtimeMode := False, isIdentifying := False,
       rateLimitError := Some ''limit'', rateLimitTimeoutRef := Some 8000,
       focusedIdentTimeoutRef := Some 8000, outstanding := []\<rparr>"
  define s2 where "s2 = s1\<lparr>identifiedObject := None, isFocusedIdentification := False,
       rateLimitError := None, rateLimitTimeoutRef := None, focusedIdentTimeoutRef := None,
       clock := 17000\<rparr>"
  have r1: "run initialController
       [VideoResize 640 480, ToggleRealtime, Settle 0 (Inr (Some ''mug'')), Elapse 2000,
        VideoClick tap0, Elapse 1000] = Some s0"
    by (simp add: s0_def controller_defs tap0_def cropOfClick_def Let_def)
  have r2: "step s0 (Settle 0 (Inl (RateLimitError ''limit''))) = Some s1"
    by (simp add: s1_def s0_def controller_defs)
  have r3: "run s1 [Elapse 2000, VideoClick tap0, Elapse 3000, FocusedIdentTimeout, RateLimitTimeout,
                Elapse 9000] = Some s2"
    by (simp add: s2_def s1_def s0_def controller_defs)
  have r4: "ToggleRealtime \<notin> set [Elapse 2000, VideoClick tap0, Elapse 3000, FocusedIdentTimeout,
                RateLimitTimeout, Elapse 9000]"
    by simp
  have c: "clock s1 = 3000" "clock s2 = 17000"
    by (simp_all add: s2_def s1_def s0_def)
  from rateLimit_cooldown [OF r1 r2 r3 r4] c r1 r2 r3 show ?thesis
    by (intro exI [of _ s0] exI [of _ s1] exI [of _ s2]) simp
qed

subsection \<open>After a configuration error\<close>

text \<open>
  C5. A call settles with a \<open>ConfigError\<close> with the message \<open>m\<close>, in any state \<open>s0\<close> the
  component can reach; \<open>s1\<close> is the state after it. In every state \<open>s2\<close> reached from
  \<open>s1\<close> by any events other than the user toggling the real-time mode (timers firing,
  time passing, taps), the mode is off, the timer of the loop is not pending, no call
  is outstanding, no call has been issued since, and the configuration error is still
  set in the \<open>App\<close> state; \<open>resetState\<close> does not clear it either.
\<close>

theorem configError_stops_calls:
  assumes "run initialController evs1 = Some s0"
      and "step s0 (Settle i (Inl (ConfigError m))) = Some s1"
      and "run s1 evs2 = Some s2"
      and "ToggleRealtime \<notin> set evs2"
  shows "\<not> isRealtimeMode s2 \<and> \<not> isIdentifying s2 \<and> outstanding s2 = []
       \<and> realtimeTimeoutRef s2 = None \<and> issued s2 = issued s1
       \<and> configError (app s2) = Some m \<and> configError (resetState (app s2)) = Some m"
proof -
  from run_invariant [OF loopInvariant_initial assms(1)] have inv: "loopInvariant s0" .
  from assms(2) have settle: "settle i (Inl (ConfigError m)) s0 = Some s1" by simp
  from settle_error_atRest [OF inv settle] have rest1: "atRest s1" by simp
  from settle_config_app [OF inv settle] have app1: "configError (app s1) = Some m" .
  from atRest_run [OF rest1 assms(4,3)]
  have "atRest s2" "issued s2 = issued s1" "app s2 = app s1" by simp_all
  with app1 show ?thesis
    by (simp add: atRest_def resetState_def)
qed

theorem configError_stops_calls_witness:
  "\<exists>s0 s1 s2.
     run initialController [VideoResize 640 480, ToggleRealtime] = Some s0
     \<and> step s0 (Settle 0 (Inl (ConfigError ''no key''))) = Some s1
     \<and> run s1 [Elapse 5000, VideoClick tap0, VideoResize 1280 720, Elapse 60000] = Some s2
     \<and> issued s0 = 1 \<and> issued s2 = 1 \<and> \<not> isRealtimeMode s2 \<and> realtimeTimeoutRef s2 = None
     \<and> configError (app s2) = Some ''no key''"
proof -
  define s0 where "s0 = initialController\<lparr>isRealtimeMode := True, isIdentifying := True,
       loopActive := True, outstanding := [AmbientCall False],
       issued := 1, videoWidth := 640, videoHeight := 480\<rparr>"
  define s1 where "s1 = s0\<lparr>isRealtimeMode := False, isIdentifying := False, loopActive := False,
       outstanding := [], app := initialApp\<lparr>configError := Some ''no key''\<rparr>\<rparr>"
  define s2 where "s2 = s1\<lparr>clock := 65000, videoWidth := 1280, videoHeight := 720\<rparr>"
  have r1: "run initialController [VideoResize 640 480, ToggleRealtime] = Some s0"
    by (simp add: s0_def controller_defs)
  have r2: "step s0 (Settle 0 (Inl (ConfigError ''no key''))) = Some s1"
    by (simp add: s1_def s0_def controller_defs)
  have r3: "run s1 [Elapse 5000, VideoClick tap0, VideoResize 1280 720, Elapse 60000] = Some s2"
    by (simp add: s2_def s1_def s0_def controller_defs)
  have r4: "ToggleRealtime \<notin> set [Elapse 5000, VideoClick tap0, VideoResize 1280 720, Elapse 60000]"
    by simp
  have c: "issued s0 = 1" "issued s1 = 1"
    by (simp_all add: s1_def s0_def)
  from configError_stops_calls [OF r1 r2 r3 r4] c r1 r2 r3 show ?thesis
    by (intro exI [of _ s0] exI [of _ s1] exI [of _ s2]) simp
qed

end
